theory Spec2Isabelle
  imports Complex_Main
begin

section \<open>The object store\<close>

text \<open>
  The program (\<^verbatim>\<open>autograd.py\<close>) builds a graph of \<^verbatim>\<open>Value\<close> objects linked
  through \<^verbatim>\<open>Operator\<close> objects. Both kinds of object are shared by reference and
  \<^verbatim>\<open>Value\<close> objects are mutated in place, so the model keeps them in an explicit
  store: a reference is the index of the object in the list of all objects of its kind,
  in allocation order.

  The Python \<^verbatim>\<open>float\<close> is modelled by \<^typ>\<open>real\<close>: rounding, infinities and NaN
  are outside the model.
\<close>

type_synonym vref = nat
type_synonym oref = nat

text \<open>
  The exceptions the program can raise. \<open>RecursionError\<close> is what the interpreter
  raises when the call depth passes its limit; \<open>DanglingRef\<close> is no Python exception:
  it is the result of the model on a store in which a reference names no object, which
  cannot happen in Python.
\<close>

datatype error =
    RuntimeError
  | AssertionError
  | AttributeError
  | RecursionError
  | DanglingRef

text \<open>
  \<^verbatim>\<open>class Value\<close>: the fields \<^verbatim>\<open>_v\<close>, \<^verbatim>\<open>_requires_grad\<close>, \<^verbatim>\<open>grad\<close>,
  \<^verbatim>\<open>_op\<close> and \<^verbatim>\<open>_backprop_count\<close>.
\<close>

record Value =
  val_v :: real
  val_requires_grad :: bool
  val_grad :: "real option"
  val_op :: "oref option"
  val_backprop_count :: int

text \<open>
  The operator classes with the fields of their instances. \<open>Operator\<close>, \<open>BinaryOp\<close>
  and \<open>UnaryOp\<close> are the base classes, \<open>AddOp\<close>, \<open>SubOp\<close> and \<open>MulOp\<close> the three
  operators of \<^verbatim>\<open>autograd.py\<close>, and \<open>PassThroughOp\<close> the unary operator of
  \<^verbatim>\<open>test_autograd.py\<close>, which counts the calls of its \<^verbatim>\<open>backprop_calc\<close> in the
  field \<^verbatim>\<open>backprop_count\<close>.
\<close>

datatype Operator =
    Operator
  | BinaryOp vref vref
  | UnaryOp vref
  | AddOp vref vref
  | SubOp vref vref
  | MulOp vref vref
  | PassThroughOp vref int

text \<open>
  The store also carries a call log, which is not a field of any object of the program:
  every call of an operator's \<^verbatim>\<open>backprop_setup\<close> or \<^verbatim>\<open>backprop_calc\<close> appends an
  entry, so that statements about how often an operator is called can be written down.
  Nothing in the model reads the log.
\<close>

datatype call = SetupCall oref | CalcCall oref real

record store =
  vals :: "Value list"
  opers :: "Operator list"
  calls :: "call list"

definition empty_store :: store where
  "empty_store = \<lparr>vals = [], opers = [], calls = []\<rparr>"

definition has_val :: "store \<Rightarrow> vref \<Rightarrow> bool" where
  "has_val s x = (x < length (vals s))"

definition has_oper :: "store \<Rightarrow> oref \<Rightarrow> bool" where
  "has_oper s k = (k < length (opers s))"

definition the_val :: "store \<Rightarrow> vref \<Rightarrow> Value" where
  "the_val s x = vals s ! x"

definition put_val :: "vref \<Rightarrow> Value \<Rightarrow> store \<Rightarrow> store" where
  "put_val x w s = s\<lparr>vals := (vals s)[x := w]\<rparr>"

definition alloc_val :: "Value \<Rightarrow> store \<Rightarrow> store \<times> vref" where
  "alloc_val w s = (s\<lparr>vals := vals s @ [w]\<rparr>, length (vals s))"

definition alloc_oper :: "Operator \<Rightarrow> store \<Rightarrow> store \<times> oref" where
  "alloc_oper p s = (s\<lparr>opers := opers s @ [p]\<rparr>, length (opers s))"

definition log_call :: "call \<Rightarrow> store \<Rightarrow> store" where
  "log_call c s = s\<lparr>calls := calls s @ [c]\<rparr>"

section \<open>Construction of the graph\<close>

text \<open>\<^verbatim>\<open>Value.__init__(v, requires_grad=False, op=None)\<close>.\<close>

definition Value_init :: "real \<Rightarrow> bool \<Rightarrow> oref option \<Rightarrow> Value" where
  "Value_init v rg p =
     \<lparr>val_v = v, val_requires_grad = rg, val_grad = None, val_op = p,
      val_backprop_count = 0\<rparr>"

text \<open>The expression \<^verbatim>\<open>Value(v, requires_grad=rg, op=p)\<close>: a new object.\<close>

definition new_Value :: "real \<Rightarrow> bool \<Rightarrow> oref option \<Rightarrow> store \<Rightarrow> store \<times> vref" where
  "new_Value v rg p s = alloc_val (Value_init v rg p) s"

text \<open>\<^verbatim>\<open>Value.item\<close>.\<close>

definition item :: "store \<Rightarrow> vref \<Rightarrow> real" where
  "item s x = val_v (the_val s x)"

text \<open>
  \<^verbatim>\<open>requires_grad\<close> of an operator. \<^verbatim>\<open>BinaryOp.requires_grad\<close> is inherited by the
  three binary operators. \<^verbatim>\<open>UnaryOp.requires_grad\<close> evaluates
  \<^verbatim>\<open>self._in1._requires_grad or self._in2._requires_grad\<close>; a unary operator has no
  attribute \<^verbatim>\<open>_in2\<close>, so the right operand of \<^verbatim>\<open>or\<close>, which Python evaluates only
  when the left one is false, raises \<^verbatim>\<open>AttributeError\<close>. The class \<^verbatim>\<open>Operator\<close> has
  no method of this name.
\<close>

definition BinaryOp_requires_grad :: "store \<Rightarrow> vref \<Rightarrow> vref \<Rightarrow> error + bool" where
  "BinaryOp_requires_grad s a b =
     (if has_val s a \<and> has_val s b
      then Inr (val_requires_grad (the_val s a) \<or> val_requires_grad (the_val s b))
      else Inl DanglingRef)"

definition UnaryOp_requires_grad :: "store \<Rightarrow> vref \<Rightarrow> error + bool" where
  "UnaryOp_requires_grad s a =
     (if has_val s a
      then (if val_requires_grad (the_val s a) then Inr True else Inl AttributeError)
      else Inl DanglingRef)"

fun requires_grad :: "store \<Rightarrow> Operator \<Rightarrow> error + bool" where
  "requires_grad s Operator = Inl AttributeError"
| "requires_grad s (BinaryOp a b) = BinaryOp_requires_grad s a b"
| "requires_grad s (UnaryOp a) = UnaryOp_requires_grad s a"
| "requires_grad s (AddOp a b) = BinaryOp_requires_grad s a b"
| "requires_grad s (SubOp a b) = BinaryOp_requires_grad s a b"
| "requires_grad s (MulOp a b) = BinaryOp_requires_grad s a b"
| "requires_grad s (PassThroughOp a c) = UnaryOp_requires_grad s a"

text \<open>
  The body shared by \<^verbatim>\<open>AddOp.forward\<close>, \<^verbatim>\<open>SubOp.forward\<close> and
  \<^verbatim>\<open>MulOp.forward\<close>, which differ in the arithmetic only (the argument \<open>f\<close>):
  \<^verbatim>\<open>rg = self.requires_grad(); op = self if rg else None;
  return Value(f(self._in1._v, self._in2._v), requires_grad=rg, op=op)\<close>.
\<close>

definition binary_forward ::
  "(real \<Rightarrow> real \<Rightarrow> real) \<Rightarrow> oref \<Rightarrow> vref \<Rightarrow> vref \<Rightarrow> store \<Rightarrow> error + store \<times> vref" where
  "binary_forward f k a b s =
     (case BinaryOp_requires_grad s a b of
        Inl e \<Rightarrow> Inl e
      | Inr rg \<Rightarrow>
          Inr (new_Value (f (val_v (the_val s a)) (val_v (the_val s b))) rg
                 (if rg then Some k else None) s))"

text \<open>
  \<^verbatim>\<open>forward\<close> of the operator object \<open>k\<close>. The base classes inherit
  \<^verbatim>\<open>Operator.forward\<close>, which raises. \<^verbatim>\<open>PassThroughOp.forward\<close> returns
  \<^verbatim>\<open>Value(self._in1._v, requires_grad=self._in1._requires_grad, op=self)\<close>.
\<close>

definition forward :: "oref \<Rightarrow> store \<Rightarrow> error + store \<times> vref" where
  "forward k s =
     (if has_oper s k then
        (case opers s ! k of
           Operator \<Rightarrow> Inl RuntimeError
         | BinaryOp a b \<Rightarrow> Inl RuntimeError
         | UnaryOp a \<Rightarrow> Inl RuntimeError
         | AddOp a b \<Rightarrow> binary_forward (\<lambda>x y. x + y) k a b s
         | SubOp a b \<Rightarrow> binary_forward (\<lambda>x y. x - y) k a b s
         | MulOp a b \<Rightarrow> binary_forward (\<lambda>x y. x * y) k a b s
         | PassThroughOp a c \<Rightarrow>
             (if has_val s a
              then Inr (new_Value (val_v (the_val s a)) (val_requires_grad (the_val s a))
                          (Some k) s)
              else Inl DanglingRef))
      else Inl DanglingRef)"

text \<open>
  The right operand of \<^verbatim>\<open>+\<close>, \<^verbatim>\<open>-\<close> and \<^verbatim>\<open>*\<close>: a \<^verbatim>\<open>float\<close>, a \<^verbatim>\<open>Value\<close>, or
  an object of any other type.
\<close>

datatype operand = PyFloat real | PyValue vref | PyOther

text \<open>
  The first three lines of \<^verbatim>\<open>__add__\<close>, \<^verbatim>\<open>__sub__\<close> and \<^verbatim>\<open>__mul__\<close>: a
  \<^verbatim>\<open>float\<close> becomes a new \<^verbatim>\<open>Value\<close>, and anything but a \<^verbatim>\<open>Value\<close> fails the
  assertion.
\<close>

fun coerce :: "operand \<Rightarrow> store \<Rightarrow> error + store \<times> vref" where
  "coerce (PyFloat r) s = Inr (new_Value r False None s)"
| "coerce (PyValue b) s = Inr (s, b)"
| "coerce PyOther s = Inl AssertionError"

definition Value_add :: "vref \<Rightarrow> operand \<Rightarrow> store \<Rightarrow> error + store \<times> vref" where
  "Value_add a other s =
     (case coerce other s of
        Inl e \<Rightarrow> Inl e
      | Inr (s1, b) \<Rightarrow> (case alloc_oper (AddOp a b) s1 of (s2, k) \<Rightarrow> forward k s2))"

definition Value_sub :: "vref \<Rightarrow> operand \<Rightarrow> store \<Rightarrow> error + store \<times> vref" where
  "Value_sub a other s =
     (case coerce other s of
        Inl e \<Rightarrow> Inl e
      | Inr (s1, b) \<Rightarrow> (case alloc_oper (SubOp a b) s1 of (s2, k) \<Rightarrow> forward k s2))"

definition Value_mul :: "vref \<Rightarrow> operand \<Rightarrow> store \<Rightarrow> error + store \<times> vref" where
  "Value_mul a other s =
     (case coerce other s of
        Inl e \<Rightarrow> Inl e
      | Inr (s1, b) \<Rightarrow> (case alloc_oper (MulOp a b) s1 of (s2, k) \<Rightarrow> forward k s2))"

text \<open>\<^verbatim>\<open>PassThroughOp(a).forward()\<close>, as the tests write it.\<close>

definition pass_through :: "vref \<Rightarrow> store \<Rightarrow> error + store \<times> vref" where
  "pass_through a s = (case alloc_oper (PassThroughOp a 0) s of (s1, k) \<Rightarrow> forward k s1)"

section \<open>The backward pass\<close>

text \<open>
  The methods call each other recursively along the graph. The first argument of each
  function is the number of nested calls the interpreter still allows; at \<open>0\<close> the call
  raises \<^verbatim>\<open>RecursionError\<close>, which is what Python does at its recursion limit.

  An exception does not undo the assignments made before it: the objects stay as they
  were when it was raised. So a call that raises returns the error together with the
  store at that moment (\<open>Inl (e, s)\<close>), and a call that returns, the store it leaves
  (\<open>Inr s\<close>).

  \<^verbatim>\<open>Value.backprop_setup\<close> adds one to the counter and, when the counter is then \<open>1\<close>
  and the value has an operator, calls the operator's \<^verbatim>\<open>backprop_setup\<close>;
  \<^verbatim>\<open>BinaryOp.backprop_setup\<close> and \<^verbatim>\<open>UnaryOp.backprop_setup\<close> call the operands in
  turn (all subclasses inherit them), and \<^verbatim>\<open>Operator.backprop_setup\<close> raises.
\<close>

fun Value_backprop_setup :: "nat \<Rightarrow> vref \<Rightarrow> store \<Rightarrow> error \<times> store + store"
  and Operator_backprop_setup :: "nat \<Rightarrow> oref \<Rightarrow> store \<Rightarrow> error \<times> store + store" where
  "Value_backprop_setup 0 x s = Inl (RecursionError, s)"
| "Value_backprop_setup (Suc n) x s =
     (if has_val s x then
        (let w = the_val s x;
             c = val_backprop_count w + 1;
             s1 = put_val x (w\<lparr>val_backprop_count := c\<rparr>) s
         in case val_op w of
              None \<Rightarrow> Inr s1
            | Some k \<Rightarrow> if c = 1 then Operator_backprop_setup n k s1 else Inr s1)
      else Inl (DanglingRef, s))"
| "Operator_backprop_setup 0 k s = Inl (RecursionError, s)"
| "Operator_backprop_setup (Suc n) k s =
     (if has_oper s k then
        (let s0 = log_call (SetupCall k) s
         in case opers s ! k of
              Operator \<Rightarrow> Inl (RuntimeError, s0)
            | BinaryOp a b \<Rightarrow>
                (case Value_backprop_setup n a s0 of
                   Inl e \<Rightarrow> Inl e | Inr s1 \<Rightarrow> Value_backprop_setup n b s1)
            | UnaryOp a \<Rightarrow> Value_backprop_setup n a s0
            | AddOp a b \<Rightarrow>
                (case Value_backprop_setup n a s0 of
                   Inl e \<Rightarrow> Inl e | Inr s1 \<Rightarrow> Value_backprop_setup n b s1)
            | SubOp a b \<Rightarrow>
                (case Value_backprop_setup n a s0 of
                   Inl e \<Rightarrow> Inl e | Inr s1 \<Rightarrow> Value_backprop_setup n b s1)
            | MulOp a b \<Rightarrow>
                (case Value_backprop_setup n a s0 of
                   Inl e \<Rightarrow> Inl e | Inr s1 \<Rightarrow> Value_backprop_setup n b s1)
            | PassThroughOp a c \<Rightarrow> Value_backprop_setup n a s0)
      else Inl (DanglingRef, s))"

text \<open>
  \<^verbatim>\<open>Value.backprop_calc(grad_output)\<close> does nothing on a value that does not require
  gradients. Otherwise it adds \<^verbatim>\<open>grad_output\<close> to \<^verbatim>\<open>grad\<close> (starting from \<open>0.0\<close> when
  \<^verbatim>\<open>grad\<close> is \<^verbatim>\<open>None\<close>), takes one from the counter, asserts that the counter is not
  negative, and, when the counter is \<open>0\<close> and the value has an operator, passes the
  accumulated \<^verbatim>\<open>grad\<close> to the operator's \<^verbatim>\<open>backprop_calc\<close>. The assertion comes after
  the two assignments, so the error of a failed assertion carries the store in which the
  gradient is already added and the counter already decremented.

  \<^verbatim>\<open>AddOp\<close>, \<^verbatim>\<open>SubOp\<close>, \<^verbatim>\<open>MulOp\<close> and \<^verbatim>\<open>PassThroughOp\<close> define
  \<^verbatim>\<open>backprop_calc\<close>; the base classes inherit \<^verbatim>\<open>Operator.backprop_calc\<close>, which
  raises. \<^verbatim>\<open>MulOp\<close> reads \<^verbatim>\<open>self._in2.item()\<close> before the first call and
  \<^verbatim>\<open>self._in1.item()\<close> after it.
\<close>

fun Value_backprop_calc :: "nat \<Rightarrow> vref \<Rightarrow> real \<Rightarrow> store \<Rightarrow> error \<times> store + store"
  and Operator_backprop_calc :: "nat \<Rightarrow> oref \<Rightarrow> real \<Rightarrow> store \<Rightarrow> error \<times> store + store" where
  "Value_backprop_calc 0 x g s = Inl (RecursionError, s)"
| "Value_backprop_calc (Suc n) x g s =
     (if has_val s x then
        (let w = the_val s x in
         if val_requires_grad w then
           (let g1 = (case val_grad w of None \<Rightarrow> 0 | Some r \<Rightarrow> r) + g;
                c = val_backprop_count w - 1;
                s1 = put_val x (w\<lparr>val_grad := Some g1, val_backprop_count := c\<rparr>) s
            in if c < 0 then Inl (AssertionError, s1)
               else case val_op w of
                      None \<Rightarrow> Inr s1
                    | Some k \<Rightarrow> if c = 0 then Operator_backprop_calc n k g1 s1 else Inr s1)
         else Inr s)
      else Inl (DanglingRef, s))"
| "Operator_backprop_calc 0 k g s = Inl (RecursionError, s)"
| "Operator_backprop_calc (Suc n) k g s =
     (if has_oper s k then
        (let s0 = log_call (CalcCall k g) s
         in case opers s ! k of
              Operator \<Rightarrow> Inl (RuntimeError, s0)
            | BinaryOp a b \<Rightarrow> Inl (RuntimeError, s0)
            | UnaryOp a \<Rightarrow> Inl (RuntimeError, s0)
            | AddOp a b \<Rightarrow>
                (case Value_backprop_calc n a g s0 of
                   Inl e \<Rightarrow> Inl e | Inr s1 \<Rightarrow> Value_backprop_calc n b g s1)
            | SubOp a b \<Rightarrow>
                (case Value_backprop_calc n a g s0 of
                   Inl e \<Rightarrow> Inl e | Inr s1 \<Rightarrow> Value_backprop_calc n b (- g) s1)
            | MulOp a b \<Rightarrow>
                (if has_val s0 b then
                   (case Value_backprop_calc n a (g * item s0 b) s0 of
                      Inl e \<Rightarrow> Inl e
                    | Inr s1 \<Rightarrow>
                        if has_val s1 a then Value_backprop_calc n b (g * item s1 a) s1
                        else Inl (DanglingRef, s1))
                 else Inl (DanglingRef, s0))
            | PassThroughOp a c \<Rightarrow>
                Value_backprop_calc n a g
                  (s0\<lparr>opers := (opers s0)[k := PassThroughOp a (c + 1)]\<rparr>))
      else Inl (DanglingRef, s))"

text \<open>\<^verbatim>\<open>Value.backward\<close>: \<^verbatim>\<open>self.backprop_setup(); self.backprop_calc(1.0)\<close>.\<close>

fun backward :: "nat \<Rightarrow> vref \<Rightarrow> store \<Rightarrow> error \<times> store + store" where
  "backward 0 x s = Inl (RecursionError, s)"
| "backward (Suc n) x s =
     (case Value_backprop_setup n x s of
        Inl e \<Rightarrow> Inl e
      | Inr s1 \<Rightarrow> Value_backprop_calc n x 1 s1)"

section \<open>Reading the store\<close>

definition grad_of :: "store \<Rightarrow> vref \<Rightarrow> real option" where
  "grad_of s x = val_grad (the_val s x)"

definition count_of :: "store \<Rightarrow> vref \<Rightarrow> int" where
  "count_of s x = val_backprop_count (the_val s x)"

text \<open>The operators whose \<^verbatim>\<open>backprop_setup\<close> was called, in the order of the calls.\<close>

definition setup_calls :: "store \<Rightarrow> oref list" where
  "setup_calls s =
     concat (map (\<lambda>c. case c of SetupCall j \<Rightarrow> [j] | CalcCall j g \<Rightarrow> []) (calls s))"

text \<open>The gradients passed to \<^verbatim>\<open>backprop_calc\<close> of the operator \<open>k\<close>, one per call.\<close>

definition calc_calls :: "store \<Rightarrow> oref \<Rightarrow> real list" where
  "calc_calls s k =
     concat (map (\<lambda>c. case c of SetupCall j \<Rightarrow> [] | CalcCall j g \<Rightarrow> if j = k then [g] else [])
               (calls s))"

section \<open>The graphs of the tests\<close>

definition and_then :: "(error + 'a) \<Rightarrow> ('a \<Rightarrow> error + 'b) \<Rightarrow> error + 'b" where
  "and_then m f = (case m of Inl e \<Rightarrow> Inl e | Inr x \<Rightarrow> f x)"

text \<open>The exception of a pass alone, for a test that does not look at the store after it.\<close>

definition raised :: "error \<times> store + 'a \<Rightarrow> error + 'a" where
  "raised m = (case m of Inl (e, s) \<Rightarrow> Inl e | Inr x \<Rightarrow> Inr x)"

text \<open>
  \<^verbatim>\<open>test_short_multipath_backprop\<close>:
  \<^verbatim>\<open>a = Value(2.0, requires_grad=True); b = a + Value(3.0); c = a * Value(4.0);
  out = b * c\<close>. The result is the store with the references of \<open>a\<close> and \<open>out\<close>.
\<close>

definition short_multipath :: "error + store \<times> vref \<times> vref" where
  "short_multipath =
     (case new_Value 2 True None empty_store of (s0, a) \<Rightarrow>
      case new_Value 3 False None s0 of (s1, k3) \<Rightarrow>
      and_then (Value_add a (PyValue k3) s1) (\<lambda>(s2, b).
      case new_Value 4 False None s2 of (s3, k4) \<Rightarrow>
      and_then (Value_mul a (PyValue k4) s3) (\<lambda>(s4, c).
      and_then (Value_mul b (PyValue c) s4) (\<lambda>(s5, out).
      Inr (s5, a, out)))))"

text \<open>
  \<^verbatim>\<open>test_long_multipath_backprop\<close>:
  \<^verbatim>\<open>a = Value(2.0, requires_grad=True); b = PassThroughOp(a).forward();
  c = b + Value(4.0); d = b + Value(5.0); out = c * d\<close>. The result is the store with
  the references of \<open>a\<close>, \<open>b\<close> and \<open>out\<close>.
\<close>

definition long_multipath :: "error + store \<times> vref \<times> vref \<times> vref" where
  "long_multipath =
     (case new_Value 2 True None empty_store of (s0, a) \<Rightarrow>
      and_then (pass_through a s0) (\<lambda>(s1, b).
      case new_Value 4 False None s1 of (s2, k4) \<Rightarrow>
      and_then (Value_add b (PyValue k4) s2) (\<lambda>(s3, c).
      case new_Value 5 False None s3 of (s4, k5) \<Rightarrow>
      and_then (Value_add b (PyValue k5) s4) (\<lambda>(s5, d).
      and_then (Value_mul c (PyValue d) s5) (\<lambda>(s6, out).
      Inr (s6, a, b, out))))))"

text \<open>
  \<^verbatim>\<open>test_simple_add_backprop\<close> with \<^verbatim>\<open>out.backward()\<close> called twice:
  \<^verbatim>\<open>a = Value(3.0, requires_grad=True); b = Value(2.0, requires_grad=True); out = a + b;
  out.backward(); out.backward()\<close>. The result is the gradient of \<open>a\<close> after the first
  and after the second call.
\<close>

definition add_backward_twice :: "error + real option \<times> real option" where
  "add_backward_twice =
     and_then (Value_add 0 (PyValue 1)
                 \<lparr>vals = [Value_init 3 True None, Value_init 2 True None], opers = [],
                  calls = []\<rparr>)
       (\<lambda>(s, out). and_then (raised (backward 4 out s))
          (\<lambda>s1. and_then (raised (backward 4 out s1))
             (\<lambda>s2. Inr (grad_of s1 0, grad_of s2 0))))"

section \<open>Relations between the store before and after a call\<close>

text \<open>
  The operands an operator's \<^verbatim>\<open>backprop_setup\<close> visits, in order.
\<close>

fun operands :: "Operator \<Rightarrow> vref list" where
  "operands Operator = []"
| "operands (BinaryOp a b) = [a, b]"
| "operands (UnaryOp a) = [a]"
| "operands (AddOp a b) = [a, b]"
| "operands (SubOp a b) = [a, b]"
| "operands (MulOp a b) = [a, b]"
| "operands (PassThroughOp a c) = [a]"

text \<open>
  An operator without the call counter of \<^verbatim>\<open>PassThroughOp\<close>, the only field of an
  operator that a backward pass changes.
\<close>

fun kind :: "Operator \<Rightarrow> Operator" where
  "kind (PassThroughOp a c) = PassThroughOp a 0"
| "kind p = p"

text \<open>
  \<open>same_graph s s'\<close>: the two stores hold the same graph: the same objects with the same
  values, flags, producers and operands. \<open>setup_frame\<close> is what a setup pass keeps
  besides (operators and gradients are unchanged, counters do not decrease), and
  \<open>calc_frame\<close> what a calc pass keeps (values that do not require gradients are
  unchanged, counters do not increase, and a counter that was not negative still is not).
\<close>

definition same_graph :: "store \<Rightarrow> store \<Rightarrow> bool" where
  "same_graph s s' =
     (length (vals s') = length (vals s) \<and> map kind (opers s') = map kind (opers s) \<and>
      (\<forall>z. val_v (the_val s' z) = val_v (the_val s z) \<and>
           val_requires_grad (the_val s' z) = val_requires_grad (the_val s z) \<and>
           val_op (the_val s' z) = val_op (the_val s z)))"

definition setup_frame :: "store \<Rightarrow> store \<Rightarrow> bool" where
  "setup_frame s s' =
     (same_graph s s' \<and> opers s' = opers s \<and>
      (\<forall>z. grad_of s' z = grad_of s z \<and> count_of s z \<le> count_of s' z))"

definition calc_frame :: "store \<Rightarrow> store \<Rightarrow> bool" where
  "calc_frame s s' =
     (same_graph s s' \<and>
      (\<forall>z. (\<not> val_requires_grad (the_val s z) \<longrightarrow> the_val s' z = the_val s z) \<and>
           (0 \<le> count_of s z \<longrightarrow> 0 \<le> count_of s' z) \<and> count_of s' z \<le> count_of s z))"

text \<open>
  \<open>reaches s x z\<close>: the value \<open>z\<close> is \<open>x\<close> itself or can be reached from \<open>x\<close> by
  going from a value to an operand of its producer, any number of times. A pass started
  at \<open>x\<close> calls no method of any other value.
\<close>

inductive reaches :: "store \<Rightarrow> vref \<Rightarrow> vref \<Rightarrow> bool" for s where
  reaches_self: "reaches s x x"
| reaches_step: "val_op (the_val s x) = Some k \<Longrightarrow> has_oper s k \<Longrightarrow>
     y \<in> set (operands (opers s ! k)) \<Longrightarrow> reaches s y z \<Longrightarrow> reaches s x z"

section \<open>Well-formed graphs and the bookkeeping of a pass\<close>

text \<open>The classes that define \<^verbatim>\<open>backprop_calc\<close>.\<close>

fun defines_calc :: "Operator \<Rightarrow> bool" where
  "defines_calc (AddOp a b) = True"
| "defines_calc (SubOp a b) = True"
| "defines_calc (MulOp a b) = True"
| "defines_calc (PassThroughOp a c) = True"
| "defines_calc p = False"

text \<open>
  A store holds a well-formed graph when every stored producer is an operator object of
  a class that defines \<^verbatim>\<open>backprop_calc\<close>, its operands were allocated before the value
  it produced (as \<^verbatim>\<open>forward\<close> does, which makes the graph acyclic), and a value
  produced from an operand that requires gradients requires them too.
\<close>

definition well_formed :: "store \<Rightarrow> bool" where
  "well_formed s =
     list_all (\<lambda>x. case val_op (the_val s x) of
                     None \<Rightarrow> True
                   | Some k \<Rightarrow> has_oper s k \<and> defines_calc (opers s ! k) \<and>
                       list_all (\<lambda>y. y < x \<and> (val_requires_grad (the_val s y) \<longrightarrow>
                                                 val_requires_grad (the_val s x)))
                         (operands (opers s ! k)))
       [0..<length (vals s)]"

text \<open>No value that requires gradients has a pending contribution.\<close>

definition counters_clear :: "store \<Rightarrow> bool" where
  "counters_clear s =
     list_all (\<lambda>w. val_requires_grad w \<longrightarrow> val_backprop_count w = 0) (vals s)"

text \<open>
  The bookkeeping of a pass. \<open>expected s z\<close> counts the contributions that \<open>z\<close> will
  get from the values whose counter is positive, once for each time \<open>z\<close> is an operand
  of their producer. \<open>balanced s M D\<close>: the counter of every value that requires
  gradients, plus the registrations still to come (the list \<open>D\<close>), is the number of
  contributions still to come: those already on their way (the list \<open>M\<close>) and the
  expected ones.
\<close>

definition producer_operands :: "store \<Rightarrow> vref \<Rightarrow> vref list" where
  "producer_operands s y =
     (case val_op (the_val s y) of None \<Rightarrow> [] | Some k \<Rightarrow> operands (opers s ! k))"

definition expected :: "store \<Rightarrow> vref \<Rightarrow> nat" where
  "expected s z =
     (\<Sum>y<length (vals s). if 0 < count_of s y then count_list (producer_operands s y) z else 0)"

definition balanced :: "store \<Rightarrow> vref list \<Rightarrow> vref list \<Rightarrow> bool" where
  "balanced s M D =
     (\<forall>z. has_val s z \<longrightarrow> val_requires_grad (the_val s z) \<longrightarrow>
        count_of s z + int (count_list D z) = int (count_list M z) + int (expected s z))"

text \<open>
  No operator is the producer of two values; no value with a producer is registered;
  the operator \<open>k\<close> produced a value whose counter is positive; and the log of the setup
  calls holds exactly the operators of the registered values, each once.
\<close>

definition unique_producers :: "store \<Rightarrow> bool" where
  "unique_producers s =
     list_all (\<lambda>x. list_all (\<lambda>y. x = y \<or> val_op (the_val s x) = None \<or>
                                  val_op (the_val s x) \<noteq> val_op (the_val s y))
                       [0..<length (vals s)])
       [0..<length (vals s)]"

definition unregistered :: "store \<Rightarrow> bool" where
  "unregistered s = list_all (\<lambda>w. val_op w = None \<or> val_backprop_count w = 0) (vals s)"



section \<open>Basic facts\<close>

text \<open>
  The recursive equations are unfolded by hand, one call at a time.
\<close>

declare Value_backprop_setup.simps [simp del] Operator_backprop_setup.simps [simp del]
  Value_backprop_calc.simps [simp del] Operator_backprop_calc.simps [simp del]
  backward.simps [simp del]

lemma Value_init_fields:
  "val_v (Value_init v rg p) = v"
  "val_requires_grad (Value_init v rg p) = rg"
  "val_grad (Value_init v rg p) = None"
  "val_op (Value_init v rg p) = p"
  "val_backprop_count (Value_init v rg p) = 0"
  by (simp_all add: Value_init_def)

subsection \<open>A call that returns also returns under a larger recursion limit\<close>

lemma setup_Suc:
  "(\<forall>x s s'. Value_backprop_setup n x s = Inr s' \<longrightarrow>
       Value_backprop_setup (Suc n) x s = Inr s') \<and>
   (\<forall>k s s'. Operator_backprop_setup n k s = Inr s' \<longrightarrow>
       Operator_backprop_setup (Suc n) k s = Inr s')"
proof (induction n)
  case 0
  show ?case by (simp add: Value_backprop_setup.simps Operator_backprop_setup.simps)
next
  case (Suc n)
  have V: "\<And>x s s'. Value_backprop_setup n x s = Inr s' \<Longrightarrow>
      Value_backprop_setup (Suc n) x s = Inr s'"
    using Suc by blast
  have P: "\<And>k s s'. Operator_backprop_setup n k s = Inr s' \<Longrightarrow>
      Operator_backprop_setup (Suc n) k s = Inr s'"
    using Suc by blast
  show ?case
  proof (intro conjI allI impI)
    fix x s s'
    assume a: "Value_backprop_setup (Suc n) x s = Inr s'"
    show "Value_backprop_setup (Suc (Suc n)) x s = Inr s'"
      using a P
      by (auto simp: Value_backprop_setup.simps Let_def split: if_splits option.splits)
  next
    fix k s s'
    assume a: "Operator_backprop_setup (Suc n) k s = Inr s'"
    show "Operator_backprop_setup (Suc (Suc n)) k s = Inr s'"
      using a V
      by (auto simp: Operator_backprop_setup.simps Let_def
               split: if_splits Operator.splits sum.splits)
  qed
qed

lemma calc_Suc:
  "(\<forall>x g s s'. Value_backprop_calc n x g s = Inr s' \<longrightarrow>
       Value_backprop_calc (Suc n) x g s = Inr s') \<and>
   (\<forall>k g s s'. Operator_backprop_calc n k g s = Inr s' \<longrightarrow>
       Operator_backprop_calc (Suc n) k g s = Inr s')"
proof (induction n)
  case 0
  show ?case by (simp add: Value_backprop_calc.simps Operator_backprop_calc.simps)
next
  case (Suc n)
  have V: "\<And>x g s s'. Value_backprop_calc n x g s = Inr s' \<Longrightarrow>
      Value_backprop_calc (Suc n) x g s = Inr s'"
    using Suc by blast
  have P: "\<And>k g s s'. Operator_backprop_calc n k g s = Inr s' \<Longrightarrow>
      Operator_backprop_calc (Suc n) k g s = Inr s'"
    using Suc by blast
  show ?case
  proof (intro conjI allI impI)
    fix x g s s'
    assume a: "Value_backprop_calc (Suc n) x g s = Inr s'"
    show "Value_backprop_calc (Suc (Suc n)) x g s = Inr s'"
      using a P
      by (auto simp: Value_backprop_calc.simps Let_def split: if_splits option.splits)
  next
    fix k g s s'
    assume a: "Operator_backprop_calc (Suc n) k g s = Inr s'"
    show "Operator_backprop_calc (Suc (Suc n)) k g s = Inr s'"
      using a V
      by (auto simp: Operator_backprop_calc.simps Let_def
               split: if_splits Operator.splits sum.splits)
  qed
qed

lemma setup_mono:
  "Value_backprop_setup n x s = Inr s' \<Longrightarrow> Value_backprop_setup (n + m) x s = Inr s'"
  using setup_Suc by (induction m) auto

lemma calc_mono:
  "Value_backprop_calc n x g s = Inr s' \<Longrightarrow> Value_backprop_calc (n + m) x g s = Inr s'"
  using calc_Suc by (induction m) auto

lemma backward_Suc:
  assumes "backward n x s = Inr s'"
  shows "backward (Suc n) x s = Inr s'"
proof (cases n)
  case 0
  with assms show ?thesis by (simp add: backward.simps)
next
  case (Suc m)
  with assms obtain s1 where
    s1: "Value_backprop_setup m x s = Inr s1" "Value_backprop_calc m x 1 s1 = Inr s'"
    by (auto simp: backward.simps split: sum.splits)
  have "Value_backprop_setup (Suc m) x s = Inr s1"
    using s1 setup_Suc by blast
  moreover have "Value_backprop_calc (Suc m) x 1 s1 = Inr s'"
    using s1 calc_Suc by blast
  ultimately show ?thesis
    using Suc by (simp add: backward.simps)
qed

lemma backward_mono: "backward n x s = Inr s' \<Longrightarrow> backward (n + m) x s = Inr s'"
  by (induction m) (auto dest: backward_Suc)

subsection \<open>Induction along the calls\<close>

text \<open>
  A relation between stores that is transitive and holds across each single update of a
  pass holds across the whole pass.
\<close>

lemma setup_rel:
  assumes tr: "\<And>a b c. F a b \<Longrightarrow> F b c \<Longrightarrow> F a c"
    and put: "\<And>s x. has_val s x \<Longrightarrow>
       F s (put_val x ((the_val s x)\<lparr>val_backprop_count := val_backprop_count (the_val s x) + 1\<rparr>) s)"
    and lg: "\<And>s k. F s (log_call (SetupCall k) s)"
  shows "(\<forall>x s s'. Value_backprop_setup n x s = Inr s' \<longrightarrow> F s s') \<and>
         (\<forall>k s s'. Operator_backprop_setup n k s = Inr s' \<longrightarrow> F s s')"
proof (induction n)
  case 0
  show ?case by (simp add: Value_backprop_setup.simps Operator_backprop_setup.simps)
next
  case (Suc n)
  have V: "\<And>x s s'. Value_backprop_setup n x s = Inr s' \<Longrightarrow> F s s'"
    using Suc by blast
  have P: "\<And>k s s'. Operator_backprop_setup n k s = Inr s' \<Longrightarrow> F s s'"
    using Suc by blast
  have V2: "\<And>a b s s'. (case Value_backprop_setup n a s of Inl e \<Rightarrow> Inl e
               | Inr s1 \<Rightarrow> Value_backprop_setup n b s1) = Inr s' \<Longrightarrow> F s s'"
    by (auto split: sum.splits intro: tr V)
  show ?case
  proof (intro conjI allI impI)
    fix x s s'
    assume a: "Value_backprop_setup (Suc n) x s = Inr s'"
    show "F s s'"
      using a put [of s x]
      by (auto simp: Value_backprop_setup.simps Let_def split: if_splits option.splits
          intro: tr dest: P)
  next
    fix k s s'
    assume a: "Operator_backprop_setup (Suc n) k s = Inr s'"
    show "F s s'"
      using a lg [of s k]
      by (auto simp: Operator_backprop_setup.simps Let_def split: if_splits Operator.splits
          intro: tr dest: V V2)
  qed
qed

lemma calc_rel:
  assumes tr: "\<And>a b c. F a b \<Longrightarrow> F b c \<Longrightarrow> F a c"
    and rf: "\<And>s. F s s"
    and put: "\<And>s x g. has_val s x \<Longrightarrow> val_requires_grad (the_val s x) \<Longrightarrow>
       0 < val_backprop_count (the_val s x) \<Longrightarrow>
       F s (put_val x ((the_val s x)\<lparr>val_grad :=
              Some ((case val_grad (the_val s x) of None \<Rightarrow> 0 | Some r \<Rightarrow> r) + g),
            val_backprop_count := val_backprop_count (the_val s x) - 1\<rparr>) s)"
    and lg: "\<And>s k g. F s (log_call (CalcCall k g) s)"
    and bump: "\<And>s k a c. has_oper s k \<Longrightarrow> opers s ! k = PassThroughOp a c \<Longrightarrow>
       F s (s\<lparr>opers := (opers s)[k := PassThroughOp a (c + 1)]\<rparr>)"
  shows "(\<forall>x g s s'. Value_backprop_calc n x g s = Inr s' \<longrightarrow> F s s') \<and>
         (\<forall>k g s s'. Operator_backprop_calc n k g s = Inr s' \<longrightarrow> F s s')"
proof (induction n)
  case 0
  show ?case by (simp add: Value_backprop_calc.simps Operator_backprop_calc.simps)
next
  case (Suc n)
  have V: "\<And>x g s s'. Value_backprop_calc n x g s = Inr s' \<Longrightarrow> F s s'"
    using Suc by blast
  have P: "\<And>k g s s'. Operator_backprop_calc n k g s = Inr s' \<Longrightarrow> F s s'"
    using Suc by blast
  show ?case
  proof (intro conjI allI impI)
    fix x g s s'
    assume a: "Value_backprop_calc (Suc n) x g s = Inr s'"
    show "F s s'"
    proof (cases "has_val s x \<and> val_requires_grad (the_val s x)")
      case False
      with a rf show ?thesis
        by (auto simp: Value_backprop_calc.simps Let_def split: if_splits)
    next
      case True
      with a have pos: "0 < val_backprop_count (the_val s x)"
        by (auto simp: Value_backprop_calc.simps Let_def split: if_splits)
      show ?thesis
        using a True put [OF _ _ pos, of g]
        by (auto simp: Value_backprop_calc.simps Let_def split: if_splits option.splits
            intro: tr dest: P)
    qed
  next
    fix k g s s'
    assume a: "Operator_backprop_calc (Suc n) k g s = Inr s'"
    have L: "F s (log_call (CalcCall k g) s)" by (rule lg)
    show "F s s'"
    proof (cases "opers s ! k")
      case (PassThroughOp a c)
      have "has_oper s k" using a by (auto simp: Operator_backprop_calc.simps split: if_splits)
      then have B: "F (log_call (CalcCall k g) s)
         ((log_call (CalcCall k g) s)\<lparr>opers := (opers (log_call (CalcCall k g) s))[k := PassThroughOp a (c + 1)]\<rparr>)"
        using PassThroughOp by (intro bump) (auto simp: log_call_def has_oper_def)
      show ?thesis
        using a PassThroughOp L B
        by (auto simp: Operator_backprop_calc.simps Let_def split: if_splits
            intro: tr dest: V)
    qed (use a L in \<open>auto simp: Operator_backprop_calc.simps Let_def split: if_splits sum.splits
            intro: tr dest: V\<close>)
  qed
qed


subsection \<open>What a pass leaves unchanged\<close>

lemma the_val_put:
  "has_val s x \<Longrightarrow> the_val (put_val x w s) z = (if z = x then w else the_val s z)"
  by (simp add: the_val_def put_val_def has_val_def)

lemma put_val_simps [simp]:
  "length (vals (put_val x w s)) = length (vals s)"
  "opers (put_val x w s) = opers s"
  "calls (put_val x w s) = calls s"
  "has_val (put_val x w s) z = has_val s z"
  "has_oper (put_val x w s) k = has_oper s k"
  by (simp_all add: put_val_def has_val_def has_oper_def)

lemma log_call_simps [simp]:
  "vals (log_call c s) = vals s"
  "opers (log_call c s) = opers s"
  "calls (log_call c s) = calls s @ [c]"
  "the_val (log_call c s) z = the_val s z"
  "has_val (log_call c s) z = has_val s z"
  "has_oper (log_call c s) k = has_oper s k"
  by (simp_all add: log_call_def has_val_def has_oper_def the_val_def)

lemma setup_frame_all:
  "(\<forall>x s s'. Value_backprop_setup n x s = Inr s' \<longrightarrow> setup_frame s s') \<and>
   (\<forall>k s s'. Operator_backprop_setup n k s = Inr s' \<longrightarrow> setup_frame s s')"
proof (rule setup_rel)
  fix a b c
  assume "setup_frame a b" "setup_frame b c"
  then show "setup_frame a c"
    by (auto simp: setup_frame_def same_graph_def intro: order_trans)
next
  fix s x
  assume "has_val s x"
  then show "setup_frame s (put_val x ((the_val s x)\<lparr>val_backprop_count :=
      val_backprop_count (the_val s x) + 1\<rparr>) s)"
    by (simp add: setup_frame_def same_graph_def the_val_put grad_of_def count_of_def)
next
  fix s k
  show "setup_frame s (log_call (SetupCall k) s)"
    by (simp add: setup_frame_def same_graph_def grad_of_def count_of_def)
qed

lemma calc_frame_all:
  "(\<forall>x g s s'. Value_backprop_calc n x g s = Inr s' \<longrightarrow> calc_frame s s') \<and>
   (\<forall>k g s s'. Operator_backprop_calc n k g s = Inr s' \<longrightarrow> calc_frame s s')"
proof (rule calc_rel)
  fix a b c
  assume "calc_frame a b" "calc_frame b c"
  then show "calc_frame a c"
    unfolding calc_frame_def same_graph_def
    by (auto intro: order_trans)
next
  fix s
  show "calc_frame s s"
    by (simp add: calc_frame_def same_graph_def)
next
  fix s x g
  assume "has_val s x" "val_requires_grad (the_val s x)" "0 < val_backprop_count (the_val s x)"
  then show "calc_frame s (put_val x ((the_val s x)\<lparr>val_grad :=
              Some ((case val_grad (the_val s x) of None \<Rightarrow> 0 | Some r \<Rightarrow> r) + g),
            val_backprop_count := val_backprop_count (the_val s x) - 1\<rparr>) s)"
    by (simp add: calc_frame_def same_graph_def the_val_put count_of_def)
next
  fix s k g
  show "calc_frame s (log_call (CalcCall k g) s)"
    by (simp add: calc_frame_def same_graph_def count_of_def)
next
  fix s k a c
  assume "has_oper s k" "opers s ! k = PassThroughOp a c"
  then show "calc_frame s (s\<lparr>opers := (opers s)[k := PassThroughOp a (c + 1)]\<rparr>)"
    by (auto simp: calc_frame_def same_graph_def count_of_def the_val_def has_oper_def
        map_update list_eq_iff_nth_eq nth_list_update)
qed


lemma operands_kind [simp]: "operands (kind p) = operands p"
  by (cases p) simp_all

lemma same_graph_refl [simp]: "same_graph s s"
  by (simp add: same_graph_def)

lemma same_graph_sym: "same_graph s s' \<Longrightarrow> same_graph s' s"
  by (simp add: same_graph_def)

lemma same_graph_trans: "same_graph a b \<Longrightarrow> same_graph b c \<Longrightarrow> same_graph a c"
  by (simp add: same_graph_def)

lemma same_graph_oper:
  assumes "same_graph s s'"
  shows "has_oper s' k = has_oper s k"
    and "has_oper s k \<Longrightarrow> operands (opers s' ! k) = operands (opers s ! k)"
    and "has_oper s k \<Longrightarrow> kind (opers s' ! k) = kind (opers s ! k)"
proof -
  have m: "map kind (opers s') = map kind (opers s)"
    using assms by (simp add: same_graph_def)
  then have l: "length (opers s') = length (opers s)"
    by (metis length_map)
  then show "has_oper s' k = has_oper s k" by (simp add: has_oper_def)
  show k: "kind (opers s' ! k) = kind (opers s ! k)" if "has_oper s k"
    using that m l by (metis has_oper_def nth_map)
  show "operands (opers s' ! k) = operands (opers s ! k)" if "has_oper s k"
    using k [OF that] by (metis operands_kind)
qed

lemma same_graph_val:
  assumes "same_graph s s'"
  shows "has_val s' x = has_val s x"
    and "val_op (the_val s' x) = val_op (the_val s x)"
    and "val_requires_grad (the_val s' x) = val_requires_grad (the_val s x)"
    and "val_v (the_val s' x) = val_v (the_val s x)"
  using assms by (simp_all add: same_graph_def has_val_def)

lemma reaches_same_graph_imp:
  assumes "same_graph s s'" "reaches s x z"
  shows "reaches s' x z"
  using assms(2)
proof (induction rule: reaches.induct)
  case (reaches_self x)
  show ?case by (rule reaches.reaches_self)
next
  case (reaches_step x k y z)
  show ?case
    using reaches_step same_graph_oper [OF assms(1)] same_graph_val [OF assms(1)]
    by (intro reaches.reaches_step [of s' x k y z]) auto
qed

lemma reaches_same_graph: "same_graph s s' \<Longrightarrow> reaches s' x z = reaches s x z"
  using reaches_same_graph_imp same_graph_sym by blast

lemma setup_same_graph:
  "Value_backprop_setup n x s = Inr s' \<Longrightarrow> same_graph s s'"
  "Operator_backprop_setup n k s = Inr s' \<Longrightarrow> same_graph s s'"
  using setup_frame_all [of n] by (auto simp: setup_frame_def)

lemma calc_same_graph:
  "Value_backprop_calc n x g s = Inr s' \<Longrightarrow> same_graph s s'"
  "Operator_backprop_calc n k g s = Inr s' \<Longrightarrow> same_graph s s'"
  using calc_frame_all [of n] by (auto simp: calc_frame_def)

lemma same_graph_put:
  "has_val s x \<Longrightarrow> val_v w = val_v (the_val s x) \<Longrightarrow>
   val_requires_grad w = val_requires_grad (the_val s x) \<Longrightarrow> val_op w = val_op (the_val s x) \<Longrightarrow>
   same_graph s (put_val x w s)"
  by (simp add: same_graph_def the_val_put)

lemma same_graph_log [simp]: "same_graph s (log_call c s)"
  by (simp add: same_graph_def)

lemma same_graph_bump:
  "has_oper s k \<Longrightarrow> opers s ! k = PassThroughOp a c \<Longrightarrow>
     same_graph s (s\<lparr>opers := (opers s)[k := PassThroughOp a c']\<rparr>)"
  by (auto simp: same_graph_def the_val_def has_oper_def list_eq_iff_nth_eq nth_list_update)

text \<open>The two shapes of a returning operator call.\<close>

lemma Operator_backprop_setup_Inr:
  assumes "Operator_backprop_setup (Suc n) k s = Inr s'"
  shows "has_oper s k \<and>
     ((\<exists>a. operands (opers s ! k) = [a] \<and>
          Value_backprop_setup n a (log_call (SetupCall k) s) = Inr s') \<or>
      (\<exists>a b s1. operands (opers s ! k) = [a, b] \<and>
          Value_backprop_setup n a (log_call (SetupCall k) s) = Inr s1 \<and>
          Value_backprop_setup n b s1 = Inr s'))"
  using assms
  by (auto simp: Operator_backprop_setup.simps Let_def
      split: if_splits Operator.splits sum.splits)

lemma Operator_backprop_calc_Inr:
  assumes "Operator_backprop_calc (Suc n) k g s = Inr s'"
  shows "has_oper s k \<and> (\<exists>s0. same_graph s s0 \<and> vals s0 = vals s \<and>
     ((\<exists>a g1. operands (opers s ! k) = [a] \<and> Value_backprop_calc n a g1 s0 = Inr s') \<or>
      (\<exists>a b g1 g2 s1. operands (opers s ! k) = [a, b] \<and>
          Value_backprop_calc n a g1 s0 = Inr s1 \<and> Value_backprop_calc n b g2 s1 = Inr s')))"
proof -
  have k: "has_oper s k"
    using assms by (auto simp: Operator_backprop_calc.simps split: if_splits)
  let ?s0 = "log_call (CalcCall k g) s"
  show ?thesis
  proof (cases "opers s ! k")
    case (PassThroughOp a c)
    let ?s1 = "?s0\<lparr>opers := (opers ?s0)[k := PassThroughOp a (c + 1)]\<rparr>"
    have "same_graph ?s0 ?s1"
      using k PassThroughOp by (intro same_graph_bump) simp_all
    then have "same_graph s ?s1" using same_graph_log same_graph_trans by blast
    moreover have "vals ?s1 = vals s" by simp
    moreover have "Value_backprop_calc n a g ?s1 = Inr s'"
      using assms k PassThroughOp by (simp add: Operator_backprop_calc.simps Let_def)
    ultimately show ?thesis using k PassThroughOp by auto
  next
    case (AddOp a b)
    then show ?thesis
      using assms k
      by (intro conjI exI [of _ ?s0])
         (auto simp: Operator_backprop_calc.simps Let_def split: sum.splits)
  next
    case (SubOp a b)
    then show ?thesis
      using assms k
      by (intro conjI exI [of _ ?s0])
         (auto simp: Operator_backprop_calc.simps Let_def split: sum.splits)
  next
    case (MulOp a b)
    then show ?thesis
      using assms k
      by (intro conjI exI [of _ ?s0])
         (auto simp: Operator_backprop_calc.simps Let_def split: sum.splits if_splits)
  qed (use assms k in \<open>simp_all add: Operator_backprop_calc.simps\<close>)
qed

lemma setup_untouched:
  "(\<forall>x s s' z. Value_backprop_setup n x s = Inr s' \<longrightarrow> \<not> reaches s x z \<longrightarrow>
       the_val s' z = the_val s z) \<and>
   (\<forall>k s s' z. Operator_backprop_setup n k s = Inr s' \<longrightarrow>
       (\<forall>y\<in>set (operands (opers s ! k)). \<not> reaches s y z) \<longrightarrow> the_val s' z = the_val s z)"
proof (induction n)
  case 0
  show ?case by (simp add: Value_backprop_setup.simps Operator_backprop_setup.simps)
next
  case (Suc n)
  have V: "\<And>x s s' z. Value_backprop_setup n x s = Inr s' \<Longrightarrow> \<not> reaches s x z \<Longrightarrow>
      the_val s' z = the_val s z"
    using Suc by blast
  have P: "\<And>k s s' z. Operator_backprop_setup n k s = Inr s' \<Longrightarrow>
      (\<forall>y\<in>set (operands (opers s ! k)). \<not> reaches s y z) \<Longrightarrow> the_val s' z = the_val s z"
    using Suc by blast
  show ?case
  proof (intro conjI allI impI)
    fix x s s' z
    assume r: "Value_backprop_setup (Suc n) x s = Inr s'" and nr: "\<not> reaches s x z"
    have x: "has_val s x"
      using r by (auto simp: Value_backprop_setup.simps split: if_splits)
    have zx: "z \<noteq> x" using nr reaches_self by blast
    let ?s1 = "put_val x ((the_val s x)\<lparr>val_backprop_count :=
                 val_backprop_count (the_val s x) + 1\<rparr>) s"
    have g1: "same_graph s ?s1" using x by (intro same_graph_put) simp_all
    have u1: "the_val ?s1 z = the_val s z" using x zx by (simp add: the_val_put)
    have "s' = ?s1 \<or> (\<exists>k. val_op (the_val s x) = Some k \<and>
        Operator_backprop_setup n k ?s1 = Inr s')"
      using r x by (auto simp: Value_backprop_setup.simps Let_def split: option.splits if_splits)
    then show "the_val s' z = the_val s z"
    proof
      assume "s' = ?s1"
      with u1 show ?thesis by simp
    next
      assume "\<exists>k. val_op (the_val s x) = Some k \<and> Operator_backprop_setup n k ?s1 = Inr s'"
      then obtain k where k: "val_op (the_val s x) = Some k"
        and rk: "Operator_backprop_setup n k ?s1 = Inr s'" by blast
      have hk: "has_oper s k"
        using rk by (cases n) (auto simp: Operator_backprop_setup.simps split: if_splits)
      have "\<forall>y\<in>set (operands (opers ?s1 ! k)). \<not> reaches ?s1 y z"
        using nr k hk reaches_step [of s x k _ z] reaches_same_graph [OF g1] by auto
      from P [OF rk this] u1 show ?thesis by simp
    qed
  next
    fix k s s' z
    assume r: "Operator_backprop_setup (Suc n) k s = Inr s'"
      and nr: "\<forall>y\<in>set (operands (opers s ! k)). \<not> reaches s y z"
    let ?s0 = "log_call (SetupCall k) s"
    have g0: "same_graph s ?s0" by simp
    from Operator_backprop_setup_Inr [OF r]
    consider a where "operands (opers s ! k) = [a]" "Value_backprop_setup n a ?s0 = Inr s'"
      | a b s1 where "operands (opers s ! k) = [a, b]" "Value_backprop_setup n a ?s0 = Inr s1"
          "Value_backprop_setup n b s1 = Inr s'"
      by blast
    then show "the_val s' z = the_val s z"
    proof cases
      case 1
      then have "\<not> reaches ?s0 a z" using nr reaches_same_graph [OF g0] by simp
      from V [OF 1(2) this] show ?thesis by simp
    next
      case 2
      have "\<not> reaches ?s0 a z" using 2 nr reaches_same_graph [OF g0] by simp
      from V [OF 2(2) this] have e1: "the_val s1 z = the_val s z" by simp
      have "same_graph s s1"
        using setup_same_graph(1) [OF 2(2)] g0 same_graph_trans by blast
      then have "\<not> reaches s1 b z" using 2 nr reaches_same_graph by simp
      from V [OF 2(3) this] e1 show ?thesis by simp
    qed
  qed
qed

lemma calc_untouched:
  "(\<forall>x g s s' z. Value_backprop_calc n x g s = Inr s' \<longrightarrow> \<not> reaches s x z \<longrightarrow>
       the_val s' z = the_val s z) \<and>
   (\<forall>k g s s' z. Operator_backprop_calc n k g s = Inr s' \<longrightarrow>
       (\<forall>y\<in>set (operands (opers s ! k)). \<not> reaches s y z) \<longrightarrow> the_val s' z = the_val s z)"
proof (induction n)
  case 0
  show ?case by (simp add: Value_backprop_calc.simps Operator_backprop_calc.simps)
next
  case (Suc n)
  have V: "\<And>x g s s' z. Value_backprop_calc n x g s = Inr s' \<Longrightarrow> \<not> reaches s x z \<Longrightarrow>
      the_val s' z = the_val s z"
    using Suc by blast
  have P: "\<And>k g s s' z. Operator_backprop_calc n k g s = Inr s' \<Longrightarrow>
      (\<forall>y\<in>set (operands (opers s ! k)). \<not> reaches s y z) \<Longrightarrow> the_val s' z = the_val s z"
    using Suc by blast
  show ?case
  proof (intro conjI allI impI)
    fix x g s s' z
    assume r: "Value_backprop_calc (Suc n) x g s = Inr s'" and nr: "\<not> reaches s x z"
    have x: "has_val s x"
      using r by (auto simp: Value_backprop_calc.simps split: if_splits)
    have zx: "z \<noteq> x" using nr reaches_self by blast
    define w where "w = (the_val s x)\<lparr>val_grad :=
        Some ((case val_grad (the_val s x) of None \<Rightarrow> 0 | Some r \<Rightarrow> r) + g),
        val_backprop_count := val_backprop_count (the_val s x) - 1\<rparr>"
    have w: "val_v w = val_v (the_val s x)"
        "val_requires_grad w = val_requires_grad (the_val s x)" "val_op w = val_op (the_val s x)"
      by (simp_all add: w_def)
    have c: "s' = s \<or> s' = put_val x w s \<or> (\<exists>k g1. val_op (the_val s x) = Some k \<and>
        Operator_backprop_calc n k g1 (put_val x w s) = Inr s')"
      using r x unfolding w_def
      by (auto simp: Value_backprop_calc.simps Let_def split: option.splits if_splits)
    let ?s1 = "put_val x w s"
    have g1: "same_graph s ?s1" using x w by (intro same_graph_put) simp_all
    have u1: "the_val ?s1 z = the_val s z" using x zx by (simp add: the_val_put)
    from c show "the_val s' z = the_val s z"
    proof (elim disjE)
      assume "\<exists>k g1. val_op (the_val s x) = Some k \<and> Operator_backprop_calc n k g1 ?s1 = Inr s'"
      then obtain k g1 where k: "val_op (the_val s x) = Some k"
        and rk: "Operator_backprop_calc n k g1 ?s1 = Inr s'" by blast
      have hk: "has_oper s k"
        using rk by (cases n) (auto simp: Operator_backprop_calc.simps split: if_splits)
      have "\<forall>y\<in>set (operands (opers ?s1 ! k)). \<not> reaches ?s1 y z"
        using nr k hk reaches_step [of s x k _ z] reaches_same_graph [OF g1] by auto
      from P [OF rk this] u1 show ?thesis by simp
    qed (use u1 in simp_all)
  next
    fix k g s s' z
    assume r: "Operator_backprop_calc (Suc n) k g s = Inr s'"
      and nr: "\<forall>y\<in>set (operands (opers s ! k)). \<not> reaches s y z"
    from Operator_backprop_calc_Inr [OF r] obtain s0 where
      g0: "same_graph s s0" and v0: "vals s0 = vals s" and
      c: "(\<exists>a g1. operands (opers s ! k) = [a] \<and> Value_backprop_calc n a g1 s0 = Inr s') \<or>
      (\<exists>a b g1 g2 s1. operands (opers s ! k) = [a, b] \<and>
          Value_backprop_calc n a g1 s0 = Inr s1 \<and> Value_backprop_calc n b g2 s1 = Inr s')"
      by blast
    have e0: "the_val s0 z = the_val s z" using v0 by (simp add: the_val_def)
    from c show "the_val s' z = the_val s z"
    proof (elim disjE exE conjE)
      fix a g1
      assume 1: "operands (opers s ! k) = [a]" "Value_backprop_calc n a g1 s0 = Inr s'"
      then have "\<not> reaches s0 a z" using nr reaches_same_graph [OF g0] by simp
      from V [OF 1(2) this] e0 show ?thesis by simp
    next
      fix a b g1 g2 s1
      assume 2: "operands (opers s ! k) = [a, b]" "Value_backprop_calc n a g1 s0 = Inr s1"
          "Value_backprop_calc n b g2 s1 = Inr s'"
      have "\<not> reaches s0 a z" using 2 nr reaches_same_graph [OF g0] by simp
      from V [OF 2(2) this] e0 have e1: "the_val s1 z = the_val s z" by simp
      have "same_graph s s1"
        using calc_same_graph(1) [OF 2(2)] g0 same_graph_trans by blast
      then have "\<not> reaches s1 b z" using 2 nr reaches_same_graph by simp
      from V [OF 2(3) this] e1 show ?thesis by simp
    qed
  qed
qed

lemma backward_untouched:
  assumes "backward n x s = Inr s'" "\<not> reaches s x z"
  shows "the_val s' z = the_val s z"
proof (cases n)
  case 0
  with assms show ?thesis by (simp add: backward.simps)
next
  case (Suc m)
  with assms obtain s1 where
    s1: "Value_backprop_setup m x s = Inr s1" "Value_backprop_calc m x 1 s1 = Inr s'"
    by (auto simp: backward.simps split: sum.splits)
  have "the_val s1 z = the_val s z" using setup_untouched s1(1) assms(2) by blast
  moreover have "\<not> reaches s1 x z"
    using assms(2) reaches_same_graph [OF setup_same_graph(1) [OF s1(1)]] by simp
  then have "the_val s' z = the_val s1 z" using calc_untouched s1(2) by blast
  ultimately show ?thesis by simp
qed


section \<open>The constructor\<close>

text \<open>
  C10. Constructing a \<^verbatim>\<open>Value\<close> with a producer and \<^verbatim>\<open>requires_grad = False\<close>
  always succeeds (the constructor has no failing branch: \<^const>\<open>new_Value\<close> returns a
  store and a reference, never an error), and the new object holds the producer it was
  given, with \<^verbatim>\<open>requires_grad\<close> still false.
\<close>

theorem constructor_keeps_producer:
  "\<exists>s' x. new_Value v False (Some k) s = (s', x) \<and> has_val s' x \<and>
      val_op (the_val s' x) = Some k \<and> \<not> val_requires_grad (the_val s' x) \<and>
      val_v (the_val s' x) = v \<and> val_op (Value_init v False (Some k)) = Some k"
  by (simp add: new_Value_def alloc_val_def has_val_def the_val_def Value_init_def)

section \<open>Whether an operator requires gradients\<close>

text \<open>
  For the three binary operators \<^verbatim>\<open>requires_grad()\<close> is the disjunction of the
  operands' flags, and \<^verbatim>\<open>forward()\<close> stores the operator in the result exactly when it
  is true.
\<close>

lemma binary_requires_grad:
  assumes "has_val s a" "has_val s b" "p \<in> {AddOp a b, SubOp a b, MulOp a b}"
  shows "requires_grad s p =
     Inr (val_requires_grad (the_val s a) \<or> val_requires_grad (the_val s b))"
  using assms by (auto simp: BinaryOp_requires_grad_def)

lemma binary_forward_producer:
  assumes "has_val s a" "has_val s b" "has_oper s k"
    "opers s ! k \<in> {AddOp a b, SubOp a b, MulOp a b}"
    "rg = (val_requires_grad (the_val s a) \<or> val_requires_grad (the_val s b))"
  shows "\<exists>v. forward k s = Inr (new_Value v rg (if rg then Some k else None) s)"
  using assms
  by (auto simp: forward_def binary_forward_def BinaryOp_requires_grad_def)

text \<open>
  C6. The claim fails for unary operators: on a unary operator whose operand does not
  require gradients, \<^verbatim>\<open>requires_grad()\<close> does not return false, it raises
  \<^verbatim>\<open>AttributeError\<close> (the method reads \<^verbatim>\<open>self._in2\<close>, which a unary operator does
  not have). Here the operand is \<^verbatim>\<open>Value(1.0)\<close>, for \<^verbatim>\<open>UnaryOp\<close> itself and for its
  subclass \<^verbatim>\<open>PassThroughOp\<close>.
\<close>

theorem unary_requires_grad_raises:
  "requires_grad (fst (new_Value 1 False None empty_store))
     (UnaryOp (snd (new_Value 1 False None empty_store))) = Inl AttributeError \<and>
   requires_grad (fst (new_Value 1 False None empty_store))
     (PassThroughOp (snd (new_Value 1 False None empty_store)) 0) = Inl AttributeError"
  by (simp add: UnaryOp_requires_grad_def new_Value_def alloc_val_def empty_store_def
      has_val_def the_val_def Value_init_def)

section \<open>The graphs of the tests\<close>

lemma case_sum_False: "(case m of Inl e \<Rightarrow> False | Inr x \<Rightarrow> P x) = (\<exists>x. m = Inr x \<and> P x)"
  by (cases m) auto

lemma short_multipath_run:
  "(case short_multipath of
      Inl e \<Rightarrow> False
    | Inr (s, a, out) \<Rightarrow>
        (case backward 6 out s of
           Inl e \<Rightarrow> False
         | Inr s' \<Rightarrow> val_requires_grad (the_val s a) \<and> val_v (the_val s a) = 2 \<and>
             grad_of s a = None \<and> grad_of s' a = Some 28))"
  by code_simp

text \<open>
  C1. On the diamond graph \<open>out = (a + 3) * (a * 4)\<close> with \<open>a = 2\<close> requiring gradients,
  \<^verbatim>\<open>out.backward()\<close> returns under every recursion limit of at least 6 nested calls
  and leaves the gradient of \<open>a\<close> at \<open>28\<close>.
\<close>

theorem diamond_gradient:
  "\<exists>s a out. short_multipath = Inr (s, a, out) \<and>
     val_requires_grad (the_val s a) \<and> val_v (the_val s a) = 2 \<and> grad_of s a = None \<and>
     (\<forall>m. \<exists>s'. backward (6 + m) out s = Inr s' \<and> grad_of s' a = Some 28)"
proof -
  from short_multipath_run obtain s a out s' where
    g: "short_multipath = Inr (s, a, out)" and r: "backward 6 out s = Inr s'" and
    p: "val_requires_grad (the_val s a)" "val_v (the_val s a) = 2" "grad_of s a = None"
      "grad_of s' a = Some 28"
    unfolding case_sum_False by auto
  have "\<forall>m. \<exists>s'. backward (6 + m) out s = Inr s' \<and> grad_of s' a = Some 28"
    using backward_mono [OF r] p by blast
  with g p show ?thesis by blast
qed

lemma long_multipath_run:
  "(case long_multipath of
      Inl e \<Rightarrow> False
    | Inr (s, a, b, out) \<Rightarrow>
        (case val_op (the_val s b) of
           None \<Rightarrow> False
         | Some k \<Rightarrow>
            (case backward 8 out s of
               Inl e \<Rightarrow> False
             | Inr s' \<Rightarrow> opers s ! k = PassThroughOp a 0 \<and> calls s = [] \<and>
                 val_v (the_val s a) = 2 \<and> grad_of s' a = Some 13 \<and>
                 calc_calls s' k = [13] \<and> opers s' ! k = PassThroughOp a 1)))"
  by code_simp

text \<open>
  C2. On the graph \<open>out = (b + 4) * (b + 5)\<close>, where \<open>b\<close> is produced from the leaf
  \<open>a = 2\<close> by a \<^verbatim>\<open>PassThroughOp\<close>, one \<^verbatim>\<open>out.backward()\<close> calls \<^verbatim>\<open>backprop_calc\<close> of
  the operator that produced \<open>b\<close> exactly once, with the gradient \<open>13\<close> accumulated from
  both consumers (the operator's own counter goes from 0 to 1, and the log holds one
  call), and leaves the gradient of \<open>a\<close> at \<open>13\<close>.
\<close>

theorem shared_intermediate_propagates_once:
  "\<exists>s a b out k. long_multipath = Inr (s, a, b, out) \<and>
     val_op (the_val s b) = Some k \<and> opers s ! k = PassThroughOp a 0 \<and> calls s = [] \<and>
     val_v (the_val s a) = 2 \<and>
     (\<forall>m. \<exists>s'. backward (8 + m) out s = Inr s' \<and> grad_of s' a = Some 13 \<and>
        calc_calls s' k = [13] \<and> opers s' ! k = PassThroughOp a 1)"
proof -
  from long_multipath_run obtain s a b out k s' where
    g: "long_multipath = Inr (s, a, b, out)" and k: "val_op (the_val s b) = Some k" and
    r: "backward 8 out s = Inr s'" and
    p: "opers s ! k = PassThroughOp a 0" "calls s = []" "val_v (the_val s a) = 2" and
    q: "grad_of s' a = Some 13" "calc_calls s' k = [13]" "opers s' ! k = PassThroughOp a 1"
    unfolding case_sum_False by (auto split: option.splits)
  have "\<forall>m. \<exists>s'. backward (8 + m) out s = Inr s' \<and> grad_of s' a = Some 13 \<and>
      calc_calls s' k = [13] \<and> opers s' ! k = PassThroughOp a 1"
    using backward_mono [OF r] q by blast
  with g k p show ?thesis by blast
qed

section \<open>\<^verbatim>\<open>backward\<close> on a value that does not require gradients\<close>

lemma calc_without_requires_grad:
  "has_val s x \<Longrightarrow> \<not> val_requires_grad (the_val s x) \<Longrightarrow>
     Value_backprop_calc (Suc n) x g s = Inr s"
  by (simp add: Value_backprop_calc.simps)

text \<open>
  C7, as the claim states it, fails on the smallest input: on the single leaf
  \<^verbatim>\<open>Value(3.0)\<close>, \<^verbatim>\<open>backward()\<close> returns a store that differs from the one it
  started from, the counter of the leaf being 1 instead of 0.
\<close>

theorem backward_without_requires_grad_counterexample:
  "new_Value 3 False None empty_store =
     (\<lparr>vals = [Value_init 3 False None], opers = [], calls = []\<rparr>, 0) \<and>
   backward 2 0 \<lparr>vals = [Value_init 3 False None], opers = [], calls = []\<rparr> =
     Inr \<lparr>vals = [(Value_init 3 False None)\<lparr>val_backprop_count := 1\<rparr>], opers = [],
          calls = []\<rparr> \<and>
   backward 2 0 \<lparr>vals = [Value_init 3 False None], opers = [], calls = []\<rparr> \<noteq>
     Inr \<lparr>vals = [Value_init 3 False None], opers = [], calls = []\<rparr>"
  by (simp add: new_Value_def alloc_val_def empty_store_def backward.simps
      Value_backprop_setup.simps Value_backprop_calc.simps has_val_def the_val_def put_val_def
      Value_init_def numeral_2_eq_2)

text \<open>
  C7, amended. On a value that does not require gradients \<^verbatim>\<open>backward()\<close> is exactly
  the setup pass (the calc pass does nothing, and the only errors are those of the setup
  pass). On a value without producer it returns the store with the counter of the value
  one higher; on a value with a producer whose counter is \<open>0\<close> it sets the counter to
  \<open>1\<close> and continues with the producer's \<^verbatim>\<open>backprop_setup\<close>. Whenever it returns, the counter of the value has grown, and no gradient,
  value, flag, producer or operator has changed anywhere; counters never decrease.
\<close>

theorem backward_without_requires_grad:
  assumes "has_val s x" "\<not> val_requires_grad (the_val s x)"
  shows "backward (Suc (Suc n)) x s = Value_backprop_setup (Suc n) x s \<and>
     (val_op (the_val s x) = None \<longrightarrow>
        backward (Suc (Suc n)) x s =
          Inr (put_val x ((the_val s x)\<lparr>val_backprop_count :=
                 val_backprop_count (the_val s x) + 1\<rparr>) s)) \<and>
     (\<forall>k. val_op (the_val s x) = Some k \<and> count_of s x = 0 \<longrightarrow>
        backward (Suc (Suc n)) x s =
          Operator_backprop_setup n k
            (put_val x ((the_val s x)\<lparr>val_backprop_count := 1\<rparr>) s)) \<and>
     (\<forall>s'. backward (Suc (Suc n)) x s = Inr s' \<longrightarrow>
        count_of s x < count_of s' x \<and> length (vals s') = length (vals s) \<and>
        opers s' = opers s \<and>
        (\<forall>z. grad_of s' z = grad_of s z \<and> val_v (the_val s' z) = val_v (the_val s z) \<and>
           val_requires_grad (the_val s' z) = val_requires_grad (the_val s z) \<and>
           val_op (the_val s' z) = val_op (the_val s z) \<and> count_of s z \<le> count_of s' z))"
proof -
  have eq: "backward (Suc (Suc n)) x s = Value_backprop_setup (Suc n) x s"
  proof (cases "Value_backprop_setup (Suc n) x s")
    case (Inl e)
    then show ?thesis by (simp add: backward.simps)
  next
    case (Inr s1)
    then have "setup_frame s s1" using setup_frame_all by blast
    then have "has_val s1 x" "\<not> val_requires_grad (the_val s1 x)"
      using assms by (auto simp: setup_frame_def same_graph_def has_val_def)
    then show ?thesis
      using Inr by (simp add: backward.simps calc_without_requires_grad)
  qed
  have leaf: "val_op (the_val s x) = None \<longrightarrow>
        Value_backprop_setup (Suc n) x s =
          Inr (put_val x ((the_val s x)\<lparr>val_backprop_count :=
                 val_backprop_count (the_val s x) + 1\<rparr>) s)"
    using assms by (simp add: Value_backprop_setup.simps Let_def)
  have fr: "\<forall>s'. Value_backprop_setup (Suc n) x s = Inr s' \<longrightarrow>
      count_of s x < count_of s' x \<and> setup_frame s s'"
  proof (intro allI impI)
    fix s'
    assume r: "Value_backprop_setup (Suc n) x s = Inr s'"
    let ?s1 = "put_val x ((the_val s x)\<lparr>val_backprop_count :=
                 val_backprop_count (the_val s x) + 1\<rparr>) s"
    have "s' = ?s1 \<or> (\<exists>k. Operator_backprop_setup n k ?s1 = Inr s')"
      using r assms
      by (auto simp: Value_backprop_setup.simps Let_def split: option.splits if_splits)
    then have "count_of ?s1 x \<le> count_of s' x"
      using setup_frame_all [of n] by (auto simp: setup_frame_def)
    moreover have "count_of ?s1 x = count_of s x + 1"
      using assms by (simp add: count_of_def the_val_put)
    ultimately have "count_of s x < count_of s' x" by simp
    moreover have "setup_frame s s'" using r setup_frame_all by blast
    ultimately show "count_of s x < count_of s' x \<and> setup_frame s s'" by simp
  qed
  have prod: "\<forall>k. val_op (the_val s x) = Some k \<and> count_of s x = 0 \<longrightarrow>
        Value_backprop_setup (Suc n) x s =
          Operator_backprop_setup n k
            (put_val x ((the_val s x)\<lparr>val_backprop_count := 1\<rparr>) s)"
    using assms by (simp add: Value_backprop_setup.simps Let_def count_of_def)
  have c1: "val_op (the_val s x) = None \<longrightarrow>
        backward (Suc (Suc n)) x s =
          Inr (put_val x ((the_val s x)\<lparr>val_backprop_count :=
                 val_backprop_count (the_val s x) + 1\<rparr>) s)"
    using leaf unfolding eq .
  have c2: "\<forall>k. val_op (the_val s x) = Some k \<and> count_of s x = 0 \<longrightarrow>
        backward (Suc (Suc n)) x s =
          Operator_backprop_setup n k
            (put_val x ((the_val s x)\<lparr>val_backprop_count := 1\<rparr>) s)"
    using prod unfolding eq .
  have c3: "\<forall>s'. backward (Suc (Suc n)) x s = Inr s' \<longrightarrow>
        count_of s x < count_of s' x \<and> length (vals s') = length (vals s) \<and>
        opers s' = opers s \<and>
        (\<forall>z. grad_of s' z = grad_of s z \<and> val_v (the_val s' z) = val_v (the_val s z) \<and>
           val_requires_grad (the_val s' z) = val_requires_grad (the_val s z) \<and>
           val_op (the_val s' z) = val_op (the_val s z) \<and> count_of s z \<le> count_of s' z)"
    using fr unfolding eq by (simp add: setup_frame_def same_graph_def)
  from eq c1 c2 c3 show ?thesis by (intro conjI)
qed


theorem backward_without_requires_grad_witness:
  "backward 2 0 \<lparr>vals = [Value_init 3 False None], opers = [], calls = []\<rparr> =
     Inr \<lparr>vals = [(Value_init 3 False None)\<lparr>val_backprop_count := 1\<rparr>], opers = [],
          calls = []\<rparr>"
proof -
  let ?s = "\<lparr>vals = [Value_init 3 False None], opers = [], calls = []\<rparr>"
  have h: "has_val ?s 0" "\<not> val_requires_grad (the_val ?s 0)"
    by (simp_all add: has_val_def the_val_def Value_init_def)
  have "val_op (the_val ?s 0) = None \<longrightarrow>
        backward (Suc (Suc 0)) 0 ?s =
          Inr (put_val 0 ((the_val ?s 0)\<lparr>val_backprop_count :=
                 val_backprop_count (the_val ?s 0) + 1\<rparr>) ?s)"
    using backward_without_requires_grad [OF h, of 0] by blast
  then show ?thesis
    by (simp add: the_val_def put_val_def Value_init_def numeral_2_eq_2)
qed


section \<open>One binary operator over two leaves\<close>

lemma alloc_simps:
  "vals (fst (alloc_val w s)) = vals s @ [w]"
  "opers (fst (alloc_val w s)) = opers s"
  "snd (alloc_val w s) = length (vals s)"
  "vals (fst (alloc_oper p s)) = vals s"
  "opers (fst (alloc_oper p s)) = opers s @ [p]"
  "snd (alloc_oper p s) = length (opers s)"
  by (simp_all add: alloc_val_def alloc_oper_def)

lemma binary_leaves_run:
  assumes a: "has_val s a" and b: "has_val s b" and ne: "a \<noteq> b"
    and fa: "the_val s a = Value_init va True None"
    and fb: "the_val s b = Value_init vb True None"
    and p: "p = AddOp a b \<and> ga = 1 \<and> gb = 1 \<or> p = SubOp a b \<and> ga = 1 \<and> gb = - 1 \<or>
            p = MulOp a b \<and> ga = vb \<and> gb = va"
    and s2: "s2 = fst (alloc_oper p s)" "k = snd (alloc_oper p s)"
  shows "\<exists>s3 out s4. forward k s2 = Inr (s3, out) \<and>
     backward (Suc (Suc (Suc (Suc n)))) out s3 = Inr s4 \<and>
     grad_of s4 a = Some ga \<and> grad_of s4 b = Some gb \<and> item s4 a = va \<and> item s4 b = vb"
  using assms
  apply (simp add: forward_def has_oper_def alloc_oper_def)
  apply (elim disjE)
    apply (simp_all add: binary_forward_def BinaryOp_requires_grad_def has_val_def the_val_def
      new_Value_def alloc_val_def Value_init_def)
    apply (simp_all add: backward.simps Value_backprop_setup.simps
      Operator_backprop_setup.simps Let_def has_val_def has_oper_def the_val_def put_val_def
      log_call_def nth_append nth_list_update Value_init_def)
    apply (simp_all add: Value_backprop_calc.simps Operator_backprop_calc.simps Let_def
      has_val_def has_oper_def the_val_def put_val_def log_call_def nth_append
      nth_list_update grad_of_def item_def)
  done

text \<open>
  C4. Let \<open>a\<close> and \<open>b\<close> be two distinct leaves as \<^verbatim>\<open>Value(va, requires_grad=True)\<close>
  and \<^verbatim>\<open>Value(vb, requires_grad=True)\<close> construct them. Then \<^verbatim>\<open>a + b\<close>, \<^verbatim>\<open>a - b\<close>
  and \<^verbatim>\<open>a * b\<close> return a value \<open>out\<close>, \<^verbatim>\<open>out.backward()\<close> returns under every
  recursion limit of at least 4 nested calls, and afterwards the gradients of \<open>a\<close> and
  \<open>b\<close> are \<open>1\<close> and \<open>1\<close> for the sum, \<open>1\<close> and \<open>-1\<close> for the difference, and the
  value of \<open>b\<close> and the value of \<open>a\<close> for the product.
\<close>

theorem binary_operator_gradients:
  assumes "has_val s a" "has_val s b" "a \<noteq> b"
    and "the_val s a = Value_init va True None"
    and "the_val s b = Value_init vb True None"
  shows "(\<exists>s1 out s2. Value_add a (PyValue b) s = Inr (s1, out) \<and>
            backward (4 + n) out s1 = Inr s2 \<and>
            grad_of s2 a = Some 1 \<and> grad_of s2 b = Some 1) \<and>
         (\<exists>s1 out s2. Value_sub a (PyValue b) s = Inr (s1, out) \<and>
            backward (4 + n) out s1 = Inr s2 \<and>
            grad_of s2 a = Some 1 \<and> grad_of s2 b = Some (- 1)) \<and>
         (\<exists>s1 out s2. Value_mul a (PyValue b) s = Inr (s1, out) \<and>
            backward (4 + n) out s1 = Inr s2 \<and>
            grad_of s2 a = Some (item s2 b) \<and> grad_of s2 b = Some (item s2 a) \<and>
            item s2 a = va \<and> item s2 b = vb)"
proof -
  have n: "4 + n = Suc (Suc (Suc (Suc n)))" by simp
  have "\<exists>s1 out s2. Value_add a (PyValue b) s = Inr (s1, out) \<and>
            backward (4 + n) out s1 = Inr s2 \<and>
            grad_of s2 a = Some 1 \<and> grad_of s2 b = Some 1"
    using binary_leaves_run [OF assms, of "AddOp a b" 1 1 _ _ n]
    unfolding n by (simp add: Value_add_def split_beta) blast
  moreover have "\<exists>s1 out s2. Value_sub a (PyValue b) s = Inr (s1, out) \<and>
            backward (4 + n) out s1 = Inr s2 \<and>
            grad_of s2 a = Some 1 \<and> grad_of s2 b = Some (- 1)"
    using binary_leaves_run [OF assms, of "SubOp a b" 1 "- 1" _ _ n]
    unfolding n by (simp add: Value_sub_def split_beta) blast
  moreover have "\<exists>s1 out s2. Value_mul a (PyValue b) s = Inr (s1, out) \<and>
            backward (4 + n) out s1 = Inr s2 \<and>
            grad_of s2 a = Some (item s2 b) \<and> grad_of s2 b = Some (item s2 a) \<and>
            item s2 a = va \<and> item s2 b = vb"
    using binary_leaves_run [OF assms, of "MulOp a b" vb va _ _ n]
    unfolding n by (simp add: Value_mul_def split_beta) blast
  ultimately show ?thesis by blast
qed

text \<open>
  The leaves of \<^verbatim>\<open>test_simple_add_backprop\<close>, \<^verbatim>\<open>Value(3.0, requires_grad=True)\<close> and
  \<^verbatim>\<open>Value(2.0, requires_grad=True)\<close>, under the recursion limit 4.
\<close>

theorem binary_operator_gradients_witness:
  "(\<exists>s1 out s2.
      Value_add 0 (PyValue 1)
        \<lparr>vals = [Value_init 3 True None, Value_init 2 True None], opers = [], calls = []\<rparr> =
        Inr (s1, out) \<and>
      backward 4 out s1 = Inr s2 \<and> grad_of s2 0 = Some 1 \<and> grad_of s2 1 = Some 1) \<and>
   (\<exists>s1 out s2.
      Value_sub 0 (PyValue 1)
        \<lparr>vals = [Value_init 3 True None, Value_init 2 True None], opers = [], calls = []\<rparr> =
        Inr (s1, out) \<and>
      backward 4 out s1 = Inr s2 \<and> grad_of s2 0 = Some 1 \<and> grad_of s2 1 = Some (- 1)) \<and>
   (\<exists>s1 out s2.
      Value_mul 0 (PyValue 1)
        \<lparr>vals = [Value_init 3 True None, Value_init 2 True None], opers = [], calls = []\<rparr> =
        Inr (s1, out) \<and>
      backward 4 out s1 = Inr s2 \<and> grad_of s2 0 = Some 2 \<and> grad_of s2 1 = Some 3)"
proof -
  let ?s = "\<lparr>vals = [Value_init 3 True None, Value_init 2 True None], opers = [],
              calls = []\<rparr>"
  have h: "has_val ?s 0" "has_val ?s 1" "(0::nat) \<noteq> 1"
    "the_val ?s 0 = Value_init 3 True None" "the_val ?s 1 = Value_init 2 True None"
    by (simp_all add: has_val_def the_val_def)
  show ?thesis
    using binary_operator_gradients [OF h, of 0] by auto
qed

section \<open>Gradients that are absent\<close>

lemma backward_without_grad_unchanged:
  assumes "backward n x s = Inr s'" "\<not> val_requires_grad (the_val s z)"
  shows "grad_of s' z = grad_of s z"
proof (cases n)
  case 0
  with assms show ?thesis by (simp add: backward.simps)
next
  case (Suc m)
  with assms obtain s1 where
    s1: "Value_backprop_setup m x s = Inr s1" "Value_backprop_calc m x 1 s1 = Inr s'"
    by (auto simp: backward.simps split: sum.splits)
  have f1: "setup_frame s s1" using setup_frame_all s1(1) by blast
  have f2: "calc_frame s1 s'" using calc_frame_all s1(2) by blast
  have "\<not> val_requires_grad (the_val s1 z)"
    using f1 assms(2) by (simp add: setup_frame_def same_graph_def)
  then have "the_val s' z = the_val s1 z" using f2 by (simp add: calc_frame_def)
  then show ?thesis
    using f1 by (simp add: setup_frame_def grad_of_def)
qed

lemma forward_Inr:
  assumes "forward k s = Inr (s', r)"
  shows "\<exists>w. s' = s\<lparr>vals := vals s @ [w]\<rparr> \<and> r = length (vals s) \<and> val_grad w = None \<and>
     val_backprop_count w = 0 \<and> (val_op w = None \<or> val_op w = Some k)"
proof -
  have k: "has_oper s k" using assms by (auto simp: forward_def split: if_splits)
  show ?thesis
    using assms k
    by (cases "opers s ! k")
       (auto simp: forward_def binary_forward_def new_Value_def alloc_val_def Value_init_def
          split: sum.splits if_splits)
qed

lemma coerce_Inr:
  assumes "coerce other s = Inr (s1, b)"
  shows "s1 = s \<or> (\<exists>w. s1 = s\<lparr>vals := vals s @ [w]\<rparr> \<and> val_grad w = None)"
  using assms
  by (cases other) (auto simp: new_Value_def alloc_val_def Value_init_def)

lemma binary_operator_frame:
  assumes "Value_add a other s = Inr (s', r) \<or> Value_sub a other s = Inr (s', r) \<or>
           Value_mul a other s = Inr (s', r)"
  shows "(\<forall>z. has_val s z \<longrightarrow> the_val s' z = the_val s z) \<and>
         (\<forall>z. has_val s' z \<longrightarrow> \<not> has_val s z \<longrightarrow> grad_of s' z = None)"
proof -
  from assms obtain s1 b p where
    c: "coerce other s = Inr (s1, b)" and
    f: "forward (length (opers s1)) (s1\<lparr>opers := opers s1 @ [p]\<rparr>) = Inr (s', r)"
    by (auto simp: Value_add_def Value_sub_def Value_mul_def alloc_oper_def
        split: sum.splits prod.splits)
  from forward_Inr [OF f] obtain w where
    w: "vals s' = vals s1 @ [w]" "val_grad w = None"
    by auto
  from coerce_Inr [OF c] have "vals s1 = vals s \<or> (\<exists>u. vals s1 = vals s @ [u] \<and> val_grad u = None)"
    by auto
  then show ?thesis
    using w
    by (auto simp: has_val_def the_val_def grad_of_def nth_append less_Suc_eq)
qed

text \<open>
  C8. The attribute \<^verbatim>\<open>grad\<close> is \<^verbatim>\<open>None\<close>, not \<open>0.0\<close>, in every new
  \<^verbatim>\<open>Value\<close>; the operators \<^verbatim>\<open>+\<close>, \<^verbatim>\<open>-\<close> and \<^verbatim>\<open>*\<close> change the gradient of no
  existing value and return new values whose gradient is \<^verbatim>\<open>None\<close>; and a backward pass
  from any root \<open>x\<close> leaves unchanged the gradient of every value that does not require
  gradients, wherever it stands in the graph, and of every value that cannot be reached
  from \<open>x\<close>. So the gradient of a value that does not require gradients, and of a value
  no pass has reached, is still the \<^verbatim>\<open>None\<close> it was constructed with.
\<close>

theorem absent_gradient:
  "grad_of (fst (new_Value v rg p s)) (snd (new_Value v rg p s)) = None \<and>
   (\<forall>a other s' r.
      Value_add a other s = Inr (s', r) \<or> Value_sub a other s = Inr (s', r) \<or>
      Value_mul a other s = Inr (s', r) \<longrightarrow>
        (\<forall>z. has_val s z \<longrightarrow> grad_of s' z = grad_of s z) \<and>
        (\<forall>z. has_val s' z \<longrightarrow> \<not> has_val s z \<longrightarrow> grad_of s' z = None)) \<and>
   (\<forall>n x s' z. backward n x s = Inr s' \<longrightarrow>
      \<not> val_requires_grad (the_val s z) \<or> \<not> reaches s x z \<longrightarrow>
        grad_of s' z = grad_of s z)"
proof (intro conjI allI impI)
  show "grad_of (fst (new_Value v rg p s)) (snd (new_Value v rg p s)) = None"
    by (simp add: new_Value_def alloc_val_def grad_of_def the_val_def Value_init_def)
next
  fix a other s' r z
  assume "Value_add a other s = Inr (s', r) \<or> Value_sub a other s = Inr (s', r) \<or>
      Value_mul a other s = Inr (s', r)"
  from binary_operator_frame [OF this]
  show "has_val s z \<Longrightarrow> grad_of s' z = grad_of s z"
    and "has_val s' z \<Longrightarrow> \<not> has_val s z \<Longrightarrow> grad_of s' z = None"
    by (simp_all add: grad_of_def)
next
  fix n x s' z
  assume "backward n x s = Inr s'"
    and "\<not> val_requires_grad (the_val s z) \<or> \<not> reaches s x z"
  then show "grad_of s' z = grad_of s z"
    using backward_without_grad_unchanged backward_untouched
    by (auto simp: grad_of_def)
qed

text \<open>
  \<^verbatim>\<open>test_no_requires_grad\<close>: after \<^verbatim>\<open>(a + b).backward()\<close> with
  \<^verbatim>\<open>b = Value(3.0, requires_grad=False)\<close>, the gradient of \<open>b\<close> is \<^verbatim>\<open>None\<close> and
  that of \<open>a\<close> is \<open>1\<close>.
\<close>

lemma no_requires_grad_run:
  "(case Value_add 0 (PyValue 1)
        \<lparr>vals = [Value_init 2 True None, Value_init 3 False None], opers = [], calls = []\<rparr> of
      Inl e \<Rightarrow> False
    | Inr (s1, out) \<Rightarrow>
        (case backward 4 out s1 of
           Inl e \<Rightarrow> False
         | Inr s2 \<Rightarrow> \<not> val_requires_grad (the_val s1 1) \<and> grad_of s1 1 = None \<and>
             grad_of s2 0 = Some 1))"
  by code_simp

theorem absent_gradient_witness:
  "\<exists>s1 out s2.
     Value_add 0 (PyValue 1)
       \<lparr>vals = [Value_init 2 True None, Value_init 3 False None], opers = [], calls = []\<rparr> =
       Inr (s1, out) \<and>
     backward 4 out s1 = Inr s2 \<and> grad_of s2 1 = None \<and> grad_of s2 0 = Some 1"
proof -
  from no_requires_grad_run obtain s1 out s2 where
    a: "Value_add 0 (PyValue 1)
       \<lparr>vals = [Value_init 2 True None, Value_init 3 False None], opers = [], calls = []\<rparr> =
       Inr (s1, out)" and
    b: "backward 4 out s1 = Inr s2" and
    c: "\<not> val_requires_grad (the_val s1 1)" "grad_of s1 1 = None" "grad_of s2 0 = Some 1"
    unfolding case_sum_False by auto
  have "grad_of s2 1 = grad_of s1 1"
    using absent_gradient [of 0 False None s1] b c(1) by blast
  with a b c show ?thesis by auto
qed

section \<open>The counters over a whole pass\<close>

lemma well_formed_iff:
  "well_formed s = (\<forall>x k. has_val s x \<longrightarrow> val_op (the_val s x) = Some k \<longrightarrow>
       has_oper s k \<and> defines_calc (opers s ! k) \<and>
       (\<forall>y\<in>set (operands (opers s ! k)). y < x \<and>
          (val_requires_grad (the_val s y) \<longrightarrow> val_requires_grad (the_val s x))))"
  by (auto simp: well_formed_def list_all_iff has_val_def split: option.splits)

lemma counters_clear_iff:
  "counters_clear s = (\<forall>z. has_val s z \<longrightarrow> val_requires_grad (the_val s z) \<longrightarrow> count_of s z = 0)"
  by (auto simp: counters_clear_def list_all_length has_val_def the_val_def count_of_def)

lemma well_formed_same_graph:
  assumes "same_graph s s'" "well_formed s"
  shows "well_formed s'"
  unfolding well_formed_iff
proof (intro allI impI)
  fix x k
  assume x: "has_val s' x" and k: "val_op (the_val s' x) = Some k"
  have x0: "has_val s x" and k0: "val_op (the_val s x) = Some k"
    using x k same_graph_val [OF assms(1)] by simp_all
  from assms(2) x0 k0 have w: "has_oper s k" "defines_calc (opers s ! k)"
    "\<forall>y\<in>set (operands (opers s ! k)). y < x \<and>
          (val_requires_grad (the_val s y) \<longrightarrow> val_requires_grad (the_val s x))"
    unfolding well_formed_iff by blast+
  have d: "defines_calc (opers s' ! k)"
    using same_graph_oper(3) [OF assms(1) w(1)] w(2)
    by (cases "opers s ! k"; cases "opers s' ! k") auto
  show "has_oper s' k \<and> defines_calc (opers s' ! k) \<and>
       (\<forall>y\<in>set (operands (opers s' ! k)). y < x \<and>
          (val_requires_grad (the_val s' y) \<longrightarrow> val_requires_grad (the_val s' x)))"
    using w d same_graph_oper [OF assms(1)] same_graph_val [OF assms(1)] by simp
qed

lemma producer_operands_same_graph:
  assumes "same_graph s s'" "well_formed s" "has_val s y"
  shows "producer_operands s' y = producer_operands s y"
proof (cases "val_op (the_val s y)")
  case None
  then show ?thesis
    using same_graph_val(2) [OF assms(1), of y] by (simp add: producer_operands_def)
next
  case (Some k)
  then have "has_oper s k" using assms(2,3) unfolding well_formed_iff by blast
  then show ?thesis
    using Some same_graph_val(2) [OF assms(1), of y] same_graph_oper(2) [OF assms(1)]
    by (simp add: producer_operands_def)
qed

lemma expected_same_counts:
  assumes "same_graph s s'" "well_formed s" "\<forall>y. count_of s' y = count_of s y"
  shows "expected s' z = expected s z"
proof -
  have l: "length (vals s') = length (vals s)" using assms(1) by (simp add: same_graph_def)
  show ?thesis
    unfolding expected_def l
    by (rule sum.cong)
       (use assms producer_operands_same_graph [OF assms(1,2)] in \<open>auto simp: has_val_def\<close>)
qed

lemma balanced_same_counts:
  assumes "same_graph s s'" "well_formed s" "\<forall>y. count_of s' y = count_of s y"
  shows "balanced s' M D = balanced s M D"
  using expected_same_counts [OF assms] assms(3) same_graph_val [OF assms(1)]
  by (simp add: balanced_def)

lemma expected_put:
  assumes "has_val s x" "val_op w = val_op (the_val s x)"
  shows "expected (put_val x w s) z +
           (if 0 < count_of s x then count_list (producer_operands s x) z else 0) =
         expected s z +
           (if 0 < val_backprop_count w then count_list (producer_operands s x) z else 0)"
proof -
  let ?n = "length (vals s)"
  let ?f = "\<lambda>t y. if 0 < count_of t y then count_list (producer_operands t y) z else 0"
  let ?s1 = "put_val x w s"
  have xin: "x \<in> {..<?n}" using assms(1) by (simp add: has_val_def)
  have po: "\<And>y. producer_operands ?s1 y = producer_operands s y"
    using assms by (auto simp: producer_operands_def the_val_put split: option.splits)
  have rest: "sum (?f ?s1) ({..<?n} - {x}) = sum (?f s) ({..<?n} - {x})"
    by (rule sum.cong) (use assms po in \<open>auto simp: count_of_def the_val_put\<close>)
  have a: "expected ?s1 z = ?f ?s1 x + sum (?f ?s1) ({..<?n} - {x})"
    unfolding expected_def using xin by (simp add: sum.remove)
  have b: "expected s z = ?f s x + sum (?f s) ({..<?n} - {x})"
    unfolding expected_def using xin by (simp add: sum.remove)
  have c: "?f ?s1 x = (if 0 < val_backprop_count w then count_list (producer_operands s x) z else 0)"
    using assms po by (simp add: count_of_def the_val_put)
  show ?thesis
    unfolding a b c rest by simp
qed


lemma count_of_put:
  "has_val s x \<Longrightarrow> count_of (put_val x w s) z = (if z = x then val_backprop_count w else count_of s z)"
  by (simp add: count_of_def the_val_put)

lemma balanced_skip:
  assumes "\<not> val_requires_grad (the_val s x)" "balanced s (x # M) D"
  shows "balanced s M D"
  using assms by (auto simp: balanced_def)

lemma balanced_positive:
  assumes "balanced s (x # M) []" "has_val s x" "val_requires_grad (the_val s x)"
  shows "0 < count_of s x"
  using assms by (auto simp: balanced_def dest!: spec [of _ x])

lemma count_list_pos: "0 < count_list xs z \<Longrightarrow> z \<in> set xs"
  by (induction xs) (auto split: if_splits)

text \<open>A registration that does not start the traversal of the producer.\<close>

lemma balanced_register:
  assumes x: "has_val s x"
    and w: "w = (the_val s x)\<lparr>val_backprop_count := count_of s x + 1\<rparr>"
    and c: "val_op (the_val s x) = None \<or> count_of s x \<noteq> 0"
    and b: "balanced s M (x # D)"
  shows "balanced (put_val x w s) M D"
proof -
  have vw: "val_backprop_count w = count_of s x + 1" "val_op w = val_op (the_val s x)"
    "val_requires_grad w = val_requires_grad (the_val s x)"
    using w by simp_all
  have e: "expected (put_val x w s) z = expected s z" for z
  proof (cases "val_op (the_val s x)")
    case None
    then have "producer_operands s x = []" by (simp add: producer_operands_def)
    then show ?thesis using expected_put [OF x vw(2), of z] by (simp cong: if_cong)
  next
    case (Some k)
    then have "count_of s x \<noteq> 0" using c by simp
    then have "(0 < count_of s x) = (0 < val_backprop_count w)" using vw(1) by auto
    then show ?thesis using expected_put [OF x vw(2), of z] by (simp cong: if_cong)
  qed
  show ?thesis
    unfolding balanced_def
  proof (intro allI impI)
    fix z
    assume z: "has_val (put_val x w s) z" "val_requires_grad (the_val (put_val x w s) z)"
    then have "has_val s z" "val_requires_grad (the_val s z)"
      using x vw by (auto simp: the_val_put split: if_splits)
    then have "count_of s z + int (count_list (x # D) z) = int (count_list M z) + int (expected s z)"
      using b by (simp add: balanced_def)
    then show "count_of (put_val x w s) z + int (count_list D z) =
        int (count_list M z) + int (expected (put_val x w s) z)"
      using x vw(1) by (auto simp: e count_of_put)
  qed
qed

text \<open>The first registration of a value with a producer.\<close>

lemma balanced_register_first:
  assumes x: "has_val s x"
    and w: "w = (the_val s x)\<lparr>val_backprop_count := count_of s x + 1\<rparr>"
    and c: "val_op (the_val s x) = Some k" "count_of s x = 0"
    and b: "balanced s M (x # D)"
  shows "balanced (put_val x w s) M (operands (opers s ! k) @ D)"
proof -
  have vw: "val_backprop_count w = 1" "val_op w = val_op (the_val s x)"
    "val_requires_grad w = val_requires_grad (the_val s x)"
    using w c by simp_all
  have po: "producer_operands s x = operands (opers s ! k)"
    using c by (simp add: producer_operands_def)
  have e: "expected (put_val x w s) z = expected s z + count_list (operands (opers s ! k)) z"
    for z
    using expected_put [OF x vw(2), of z] c vw(1) po by simp
  show ?thesis
    unfolding balanced_def
  proof (intro allI impI)
    fix z
    assume z: "has_val (put_val x w s) z" "val_requires_grad (the_val (put_val x w s) z)"
    then have "has_val s z" "val_requires_grad (the_val s z)"
      using x vw by (auto simp: the_val_put split: if_splits)
    then have "count_of s z + int (count_list (x # D) z) = int (count_list M z) + int (expected s z)"
      using b by (simp add: balanced_def)
    then show "count_of (put_val x w s) z + int (count_list (operands (opers s ! k) @ D) z) =
        int (count_list M z) + int (expected (put_val x w s) z)"
      using x vw(1) c by (auto simp: e count_of_put)
  qed
qed

text \<open>A contribution after which the value still waits, or has no producer.\<close>

lemma balanced_accumulate:
  assumes x: "has_val s x" "val_requires_grad (the_val s x)"
    and w: "w = (the_val s x)\<lparr>val_grad := g, val_backprop_count := count_of s x - 1\<rparr>"
    and c: "val_op (the_val s x) = None \<or> count_of s x \<noteq> 1"
    and b: "balanced s (x # M) []"
  shows "balanced (put_val x w s) M []"
proof -
  have p: "0 < count_of s x" using balanced_positive [OF b x] .
  have vw: "val_backprop_count w = count_of s x - 1" "val_op w = val_op (the_val s x)"
    "val_requires_grad w = val_requires_grad (the_val s x)"
    using w by simp_all
  have e: "expected (put_val x w s) z = expected s z" for z
  proof (cases "val_op (the_val s x)")
    case None
    then have "producer_operands s x = []" by (simp add: producer_operands_def)
    then show ?thesis using expected_put [OF x(1) vw(2), of z] by (simp cong: if_cong)
  next
    case (Some k)
    then have "count_of s x \<noteq> 1" using c by simp
    then have "(0 < count_of s x) = (0 < val_backprop_count w)" using vw(1) p by auto
    then show ?thesis using expected_put [OF x(1) vw(2), of z] by (simp cong: if_cong)
  qed
  show ?thesis
    unfolding balanced_def
  proof (intro allI impI)
    fix z
    assume z: "has_val (put_val x w s) z" "val_requires_grad (the_val (put_val x w s) z)"
    then have "has_val s z" "val_requires_grad (the_val s z)"
      using x vw by (auto simp: the_val_put split: if_splits)
    then have "count_of s z + int (count_list [] z) = int (count_list (x # M) z) + int (expected s z)"
      using b by (simp add: balanced_def)
    then show "count_of (put_val x w s) z + int (count_list [] z) =
        int (count_list M z) + int (expected (put_val x w s) z)"
      using x vw(1) by (auto simp: e count_of_put)
  qed
qed

text \<open>The last contribution to a value with a producer.\<close>

lemma balanced_accumulate_last:
  assumes x: "has_val s x" "val_requires_grad (the_val s x)"
    and w: "w = (the_val s x)\<lparr>val_grad := g, val_backprop_count := count_of s x - 1\<rparr>"
    and c: "val_op (the_val s x) = Some k" "count_of s x = 1"
    and b: "balanced s (x # M) []"
  shows "balanced (put_val x w s) (operands (opers s ! k) @ M) []"
proof -
  have vw: "val_backprop_count w = 0" "val_op w = val_op (the_val s x)"
    "val_requires_grad w = val_requires_grad (the_val s x)"
    using w c by simp_all
  have po: "producer_operands s x = operands (opers s ! k)"
    using c by (simp add: producer_operands_def)
  have e: "expected s z = expected (put_val x w s) z + count_list (operands (opers s ! k)) z"
    for z
    using expected_put [OF x(1) vw(2), of z] c vw(1) po by simp
  show ?thesis
    unfolding balanced_def
  proof (intro allI impI)
    fix z
    assume z: "has_val (put_val x w s) z" "val_requires_grad (the_val (put_val x w s) z)"
    then have "has_val s z" "val_requires_grad (the_val s z)"
      using x vw by (auto simp: the_val_put split: if_splits)
    then have "count_of s z + int (count_list [] z) = int (count_list (x # M) z) + int (expected s z)"
      using b by (simp add: balanced_def)
    then show "count_of (put_val x w s) z + int (count_list [] z) =
        int (count_list (operands (opers s ! k) @ M) z) + int (expected (put_val x w s) z)"
      using x vw(1) c by (auto simp: e [of z] count_of_put)
  qed
qed

lemma balanced_clear:
  assumes wf: "well_formed s" and b: "balanced s [] []"
  shows "counters_clear s"
proof -
  have "has_val s z \<Longrightarrow> val_requires_grad (the_val s z) \<Longrightarrow> count_of s z = 0" for z
  proof (induction "length (vals s) - z" arbitrary: z rule: less_induct)
    case less
    have "expected s z = 0"
      unfolding expected_def
    proof (rule sum.neutral, rule ballI)
      fix y
      assume y: "y \<in> {..<length (vals s)}"
      show "(if 0 < count_of s y then count_list (producer_operands s y) z else 0) = 0"
      proof (rule ccontr)
        assume "\<not> ?thesis"
        then have p: "0 < count_of s y" and m: "z \<in> set (producer_operands s y)"
          by (auto split: if_splits dest: count_list_pos)
        from m obtain k where k: "val_op (the_val s y) = Some k"
          "z \<in> set (operands (opers s ! k))"
          by (cases "val_op (the_val s y)") (auto simp: producer_operands_def)
        have hy: "has_val s y" using y by (simp add: has_val_def)
        have "z < y" "val_requires_grad (the_val s y)"
          using wf hy k less.prems unfolding well_formed_iff by blast+
        then have "count_of s y = 0"
          using less.hyps [of y] hy y by (simp add: has_val_def)
        with p show False by simp
      qed
    qed
    then show ?case using b less.prems by (simp add: balanced_def)
  qed
  then show ?thesis by (simp add: counters_clear_iff)
qed

lemma clear_balanced:
  assumes wf: "well_formed s" and c: "counters_clear s"
  shows "balanced s [x] [x]"
proof -
  have "expected s z = 0" if "has_val s z" "val_requires_grad (the_val s z)" for z
    unfolding expected_def
  proof (rule sum.neutral, rule ballI)
    fix y
    assume y: "y \<in> {..<length (vals s)}"
    show "(if 0 < count_of s y then count_list (producer_operands s y) z else 0) = 0"
    proof (rule ccontr)
      assume "\<not> ?thesis"
      then have p: "0 < count_of s y" and m: "z \<in> set (producer_operands s y)"
        by (auto split: if_splits dest: count_list_pos)
      from m obtain k where k: "val_op (the_val s y) = Some k"
        "z \<in> set (operands (opers s ! k))"
        by (cases "val_op (the_val s y)") (auto simp: producer_operands_def)
      have hy: "has_val s y" using y by (simp add: has_val_def)
      have "val_requires_grad (the_val s y)"
        using wf hy k that unfolding well_formed_iff by blast
      then have "count_of s y = 0"
        using c hy by (simp add: counters_clear_iff)
      with p show False by simp
    qed
  qed
  then show ?thesis
    using c by (simp add: balanced_def counters_clear_iff)
qed


lemma producer_operands_log [simp]: "producer_operands (log_call c s) y = producer_operands s y"
  by (simp add: producer_operands_def cong: option.case_cong)

lemma balanced_log [simp]: "balanced (log_call c s) M D = balanced s M D"
  by (simp add: balanced_def expected_def count_of_def cong: if_cong)

lemma defines_calc_operands: "defines_calc p \<Longrightarrow> operands p \<noteq> []"
  by (cases p) auto

lemma well_formed_log [simp]: "well_formed (log_call c s) = well_formed s"
  by (simp add: well_formed_iff)

lemma defines_calc_cases:
  assumes "defines_calc p"
  obtains (binary) a b where "p = AddOp a b \<or> p = SubOp a b \<or> p = MulOp a b"
      "operands p = [a, b]"
    | (unary) a c where "p = PassThroughOp a c" "operands p = [a]"
  using assms by (cases p) auto

lemma setup_binary_rule:
  assumes k: "has_oper s k"
    and p: "opers s ! k = AddOp a b \<or> opers s ! k = SubOp a b \<or> opers s ! k = MulOp a b"
    and 1: "\<exists>s1. Value_backprop_setup n a (log_call (SetupCall k) s) = Inr s1 \<and> Q s1"
    and 2: "\<And>s1. Q s1 \<Longrightarrow> \<exists>s'. Value_backprop_setup n b s1 = Inr s' \<and> R s'"
  shows "\<exists>s'. Operator_backprop_setup (Suc n) k s = Inr s' \<and> R s'"
proof -
  from 1 obtain s1 where s1: "Value_backprop_setup n a (log_call (SetupCall k) s) = Inr s1" "Q s1"
    by blast
  from 2 [OF s1(2)] obtain s' where s': "Value_backprop_setup n b s1 = Inr s'" "R s'"
    by blast
  have "Operator_backprop_setup (Suc n) k s = Inr s'"
    using k p s1(1) s'(1) by (auto simp: Operator_backprop_setup.simps Let_def)
  with s'(2) show ?thesis by blast
qed

lemma setup_unary_rule:
  assumes k: "has_oper s k"
    and p: "opers s ! k = PassThroughOp a c"
    and 1: "\<exists>s'. Value_backprop_setup n a (log_call (SetupCall k) s) = Inr s' \<and> R s'"
  shows "\<exists>s'. Operator_backprop_setup (Suc n) k s = Inr s' \<and> R s'"
  using assms by (auto simp: Operator_backprop_setup.simps Let_def)

lemma calc_binary_rule:
  assumes k: "has_oper s k"
    and p: "opers s ! k = AddOp a b \<or> opers s ! k = SubOp a b \<or> opers s ! k = MulOp a b"
    and v: "has_val s a" "has_val s b"
    and 1: "\<And>g1. \<exists>s1. Value_backprop_calc n a g1 (log_call (CalcCall k g) s) = Inr s1 \<and>
                has_val s1 a \<and> Q s1"
    and 2: "\<And>g2 s1. Q s1 \<Longrightarrow> \<exists>s'. Value_backprop_calc n b g2 s1 = Inr s' \<and> R s'"
  shows "\<exists>s'. Operator_backprop_calc (Suc n) k g s = Inr s' \<and> R s'"
proof -
  let ?s0 = "log_call (CalcCall k g) s"
  from p consider "opers s ! k = AddOp a b" | "opers s ! k = SubOp a b" | "opers s ! k = MulOp a b"
    by blast
  then show ?thesis
  proof cases
    case 1
    from assms(5) [of g] obtain s1 where s1: "Value_backprop_calc n a g ?s0 = Inr s1" "Q s1"
      by blast
    from 2 [OF s1(2), of g] obtain s' where s': "Value_backprop_calc n b g s1 = Inr s'" "R s'"
      by blast
    have "Operator_backprop_calc (Suc n) k g s = Inr s'"
      using k 1 s1(1) s'(1) by (simp add: Operator_backprop_calc.simps Let_def)
    with s'(2) show ?thesis by blast
  next
    case 2
    from assms(5) [of g] obtain s1 where s1: "Value_backprop_calc n a g ?s0 = Inr s1" "Q s1"
      by blast
    from assms(6) [OF s1(2), of "- g"] obtain s' where
      s': "Value_backprop_calc n b (- g) s1 = Inr s'" "R s'"
      by blast
    have "Operator_backprop_calc (Suc n) k g s = Inr s'"
      using k 2 s1(1) s'(1) by (simp add: Operator_backprop_calc.simps Let_def)
    with s'(2) show ?thesis by blast
  next
    case 3
    from assms(5) [of "g * item ?s0 b"] obtain s1 where
      s1: "Value_backprop_calc n a (g * item ?s0 b) ?s0 = Inr s1" "has_val s1 a" "Q s1"
      by blast
    from assms(6) [OF s1(3), of "g * item s1 a"] obtain s' where
      s': "Value_backprop_calc n b (g * item s1 a) s1 = Inr s'" "R s'"
      by blast
    have "Operator_backprop_calc (Suc n) k g s = Inr s'"
      using k 3 v s1(1,2) s'(1) by (simp add: Operator_backprop_calc.simps Let_def)
    with s'(2) show ?thesis by blast
  qed
qed

lemma calc_unary_rule:
  assumes k: "has_oper s k"
    and p: "opers s ! k = PassThroughOp a c"
    and 1: "\<exists>s'. Value_backprop_calc n a g
               ((log_call (CalcCall k g) s)\<lparr>opers :=
                   (opers (log_call (CalcCall k g) s))[k := PassThroughOp a (c + 1)]\<rparr>) = Inr s' \<and> R s'"
  shows "\<exists>s'. Operator_backprop_calc (Suc n) k g s = Inr s' \<and> R s'"
  using assms by (auto simp: Operator_backprop_calc.simps Let_def)

lemma setup_balanced:
  "(\<forall>x s M D. well_formed s \<longrightarrow> has_val s x \<longrightarrow> 2 * x < n \<longrightarrow> balanced s M (x # D) \<longrightarrow>
      (\<exists>s'. Value_backprop_setup n x s = Inr s' \<and> balanced s' M D)) \<and>
   (\<forall>k s M D. well_formed s \<longrightarrow> has_oper s k \<longrightarrow> defines_calc (opers s ! k) \<longrightarrow>
      (\<forall>y\<in>set (operands (opers s ! k)). has_val s y \<and> 2 * y + 1 < n) \<longrightarrow>
      balanced s M (operands (opers s ! k) @ D) \<longrightarrow>
      (\<exists>s'. Operator_backprop_setup n k s = Inr s' \<and> balanced s' M D))"
proof (induction n)
  case 0
  show ?case by (auto dest: defines_calc_operands)
next
  case (Suc n)
  have V: "\<And>x s M D. well_formed s \<Longrightarrow> has_val s x \<Longrightarrow> 2 * x < n \<Longrightarrow>
      balanced s M (x # D) \<Longrightarrow> \<exists>s'. Value_backprop_setup n x s = Inr s' \<and> balanced s' M D"
    using Suc by blast
  have P: "\<And>k s M D. well_formed s \<Longrightarrow> has_oper s k \<Longrightarrow> defines_calc (opers s ! k) \<Longrightarrow>
      (\<forall>y\<in>set (operands (opers s ! k)). has_val s y \<and> 2 * y + 1 < n) \<Longrightarrow>
      balanced s M (operands (opers s ! k) @ D) \<Longrightarrow>
      \<exists>s'. Operator_backprop_setup n k s = Inr s' \<and> balanced s' M D"
    using Suc by blast
  show ?case
  proof (intro conjI allI impI)
    fix x s M D
    assume wf: "well_formed s" and x: "has_val s x" and n: "2 * x < Suc n"
      and b: "balanced s M (x # D)"
    define w where "w = (the_val s x)\<lparr>val_backprop_count := count_of s x + 1\<rparr>"
    let ?s1 = "put_val x w s"
    have g1: "same_graph s ?s1" using x by (intro same_graph_put) (simp_all add: w_def)
    have wf1: "well_formed ?s1" using well_formed_same_graph [OF g1 wf] .
    have u: "Value_backprop_setup (Suc n) x s =
        (case val_op (the_val s x) of None \<Rightarrow> Inr ?s1
         | Some k \<Rightarrow> if count_of s x = 0 then Operator_backprop_setup n k ?s1 else Inr ?s1)"
      using x
      by (auto simp: Value_backprop_setup.simps Let_def w_def count_of_def split: option.splits)
    show "\<exists>s'. Value_backprop_setup (Suc n) x s = Inr s' \<and> balanced s' M D"
    proof (cases "val_op (the_val s x) = None \<or> count_of s x \<noteq> 0")
      case True
      then have "Value_backprop_setup (Suc n) x s = Inr ?s1"
        using u by (auto split: option.splits)
      moreover have "balanced ?s1 M D"
        using balanced_register [OF x w_def True b] .
      ultimately show ?thesis by blast
    next
      case False
      then obtain k where k: "val_op (the_val s x) = Some k" and c: "count_of s x = 0"
        by auto
      have r: "Value_backprop_setup (Suc n) x s = Operator_backprop_setup n k ?s1"
        using u k c by simp
      from wf x k have w: "has_oper s k" "defines_calc (opers s ! k)"
        "\<forall>y\<in>set (operands (opers s ! k)). y < x"
        unfolding well_formed_iff by blast+
      have "\<forall>y\<in>set (operands (opers ?s1 ! k)). has_val ?s1 y \<and> 2 * y + 1 < n"
        using w(3) x n by (auto simp: has_val_def)
      moreover have "balanced ?s1 M (operands (opers ?s1 ! k) @ D)"
        using balanced_register_first [OF x w_def k c b] by simp
      ultimately show ?thesis
        using P [of ?s1 k M D] wf1 w(1,2) r by simp
    qed
  next
    fix k s M D
    assume wf: "well_formed s" and k: "has_oper s k" and d: "defines_calc (opers s ! k)"
      and o: "\<forall>y\<in>set (operands (opers s ! k)). has_val s y \<and> 2 * y + 1 < Suc n"
      and b: "balanced s M (operands (opers s ! k) @ D)"
    let ?s0 = "log_call (SetupCall k) s"
    from d show "\<exists>s'. Operator_backprop_setup (Suc n) k s = Inr s' \<and> balanced s' M D"
    proof (cases rule: defines_calc_cases)
      case (binary a c)
      have ab: "has_val s a" "2 * a < n" "has_val s c" "2 * c < n"
        using o binary(2) by auto
      show ?thesis
      proof (rule setup_binary_rule [OF k binary(1),
            where Q = "\<lambda>t. same_graph s t \<and> balanced t M (c # D)"])
        from V [of ?s0 a M "c # D"] wf ab b binary(2)
        obtain s1 where s1: "Value_backprop_setup n a ?s0 = Inr s1" "balanced s1 M (c # D)"
          by auto
        have "same_graph s s1"
          using setup_same_graph(1) [OF s1(1)] same_graph_log same_graph_trans by blast
        with s1 show "\<exists>s1. Value_backprop_setup n a ?s0 = Inr s1 \<and>
            same_graph s s1 \<and> balanced s1 M (c # D)"
          by blast
      next
        fix s1
        assume q: "same_graph s s1 \<and> balanced s1 M (c # D)"
        then have "well_formed s1" "has_val s1 c"
          using well_formed_same_graph wf ab(3) same_graph_val(1) by blast+
        then show "\<exists>s'. Value_backprop_setup n c s1 = Inr s' \<and> balanced s' M D"
          using V [of s1 c M D] q ab(4) by blast
      qed
    next
      case (unary a c)
      have ab: "has_val s a" "2 * a < n"
        using o unary(2) by auto
      show ?thesis
        by (rule setup_unary_rule [OF k unary(1)])
           (use V [of ?s0 a M D] wf ab b unary(2) in auto)
    qed
  qed
qed


lemma calc_balanced:
  "(\<forall>x g s M. well_formed s \<longrightarrow> has_val s x \<longrightarrow> 2 * x < n \<longrightarrow> balanced s (x # M) [] \<longrightarrow>
      (\<exists>s'. Value_backprop_calc n x g s = Inr s' \<and> balanced s' M [])) \<and>
   (\<forall>k g s M. well_formed s \<longrightarrow> has_oper s k \<longrightarrow> defines_calc (opers s ! k) \<longrightarrow>
      (\<forall>y\<in>set (operands (opers s ! k)). has_val s y \<and> 2 * y + 1 < n) \<longrightarrow>
      balanced s (operands (opers s ! k) @ M) [] \<longrightarrow>
      (\<exists>s'. Operator_backprop_calc n k g s = Inr s' \<and> balanced s' M []))"
proof (induction n)
  case 0
  show ?case by (auto dest: defines_calc_operands)
next
  case (Suc n)
  have V: "\<And>x g s M. well_formed s \<Longrightarrow> has_val s x \<Longrightarrow> 2 * x < n \<Longrightarrow>
      balanced s (x # M) [] \<Longrightarrow> \<exists>s'. Value_backprop_calc n x g s = Inr s' \<and> balanced s' M []"
    using Suc by blast
  have P: "\<And>k g s M. well_formed s \<Longrightarrow> has_oper s k \<Longrightarrow> defines_calc (opers s ! k) \<Longrightarrow>
      (\<forall>y\<in>set (operands (opers s ! k)). has_val s y \<and> 2 * y + 1 < n) \<Longrightarrow>
      balanced s (operands (opers s ! k) @ M) [] \<Longrightarrow>
      \<exists>s'. Operator_backprop_calc n k g s = Inr s' \<and> balanced s' M []"
    using Suc by blast
  show ?case
  proof (intro conjI allI impI)
    fix x g s M
    assume wf: "well_formed s" and x: "has_val s x" and n: "2 * x < Suc n"
      and b: "balanced s (x # M) []"
    show "\<exists>s'. Value_backprop_calc (Suc n) x g s = Inr s' \<and> balanced s' M []"
    proof (cases "val_requires_grad (the_val s x)")
      case False
      then have "Value_backprop_calc (Suc n) x g s = Inr s"
        using x by (simp add: Value_backprop_calc.simps)
      then show ?thesis using balanced_skip [OF False b] by simp
    next
      case True
      define g1 where "g1 = (case val_grad (the_val s x) of None \<Rightarrow> 0 | Some r \<Rightarrow> r) + g"
      define w where
        "w = (the_val s x)\<lparr>val_grad := Some g1, val_backprop_count := count_of s x - 1\<rparr>"
      let ?s1 = "put_val x w s"
      have p: "0 < count_of s x" using balanced_positive [OF b x True] .
      have g1: "same_graph s ?s1" using x by (intro same_graph_put) (simp_all add: w_def)
      have wf1: "well_formed ?s1" using well_formed_same_graph [OF g1 wf] .
      have u: "Value_backprop_calc (Suc n) x g s =
        (case val_op (the_val s x) of None \<Rightarrow> Inr ?s1
         | Some k \<Rightarrow> if count_of s x = 1 then Operator_backprop_calc n k g1 ?s1 else Inr ?s1)"
        using x True p
        by (auto simp: Value_backprop_calc.simps Let_def w_def g1_def count_of_def
            split: option.splits)
      show ?thesis
      proof (cases "val_op (the_val s x) = None \<or> count_of s x \<noteq> 1")
        case c: True
        then have "Value_backprop_calc (Suc n) x g s = Inr ?s1"
          using u by (auto split: option.splits)
        moreover have "balanced ?s1 M []"
          using balanced_accumulate [OF x True w_def c b] .
        ultimately show ?thesis by blast
      next
        case False
        then obtain k where k: "val_op (the_val s x) = Some k" and c: "count_of s x = 1"
          by auto
        have r: "Value_backprop_calc (Suc n) x g s = Operator_backprop_calc n k g1 ?s1"
          using u k c by simp
        from wf x k have w: "has_oper s k" "defines_calc (opers s ! k)"
          "\<forall>y\<in>set (operands (opers s ! k)). y < x"
          unfolding well_formed_iff by blast+
        have "\<forall>y\<in>set (operands (opers ?s1 ! k)). has_val ?s1 y \<and> 2 * y + 1 < n"
          using w(3) x n by (auto simp: has_val_def)
        moreover have "balanced ?s1 (operands (opers ?s1 ! k) @ M) []"
          using balanced_accumulate_last [OF x True w_def k c b] by simp
        ultimately show ?thesis
          using P [of ?s1 k M g1] wf1 w(1,2) r by simp
      qed
    qed
  next
    fix k g s M
    assume wf: "well_formed s" and k: "has_oper s k" and d: "defines_calc (opers s ! k)"
      and o: "\<forall>y\<in>set (operands (opers s ! k)). has_val s y \<and> 2 * y + 1 < Suc n"
      and b: "balanced s (operands (opers s ! k) @ M) []"
    let ?s0 = "log_call (CalcCall k g) s"
    from d show "\<exists>s'. Operator_backprop_calc (Suc n) k g s = Inr s' \<and> balanced s' M []"
    proof (cases rule: defines_calc_cases)
      case (binary a c)
      have ab: "has_val s a" "2 * a < n" "has_val s c" "2 * c < n"
        using o binary(2) by auto
      show ?thesis
      proof (rule calc_binary_rule [OF k binary(1) ab(1,3),
            where Q = "\<lambda>t. same_graph s t \<and> balanced t (c # M) []"])
        fix g1
        from V [of ?s0 a "c # M" g1] wf ab b binary(2)
        obtain s1 where s1: "Value_backprop_calc n a g1 ?s0 = Inr s1" "balanced s1 (c # M) []"
          by auto
        have "same_graph s s1"
          using calc_same_graph(1) [OF s1(1)] same_graph_log same_graph_trans by blast
        with s1 ab(1) show "\<exists>s1. Value_backprop_calc n a g1 ?s0 = Inr s1 \<and> has_val s1 a \<and>
            same_graph s s1 \<and> balanced s1 (c # M) []"
          using same_graph_val(1) by blast
      next
        fix g2 s1
        assume q: "same_graph s s1 \<and> balanced s1 (c # M) []"
        then have "well_formed s1" "has_val s1 c"
          using well_formed_same_graph wf ab(3) same_graph_val(1) by blast+
        then show "\<exists>s'. Value_backprop_calc n c g2 s1 = Inr s' \<and> balanced s' M []"
          using V [of s1 c M g2] q ab(4) by blast
      qed
    next
      case (unary a c)
      have ab: "has_val s a" "2 * a < n"
        using o unary(2) by auto
      let ?s1 = "?s0\<lparr>opers := (opers ?s0)[k := PassThroughOp a (c + 1)]\<rparr>"
      have "same_graph ?s0 ?s1"
        using k unary(1) by (intro same_graph_bump) simp_all
      then have g: "same_graph s ?s1"
        using same_graph_log same_graph_trans by blast
      have cnt: "\<forall>y. count_of ?s1 y = count_of s y"
        by (simp add: count_of_def the_val_def)
      have "well_formed ?s1" using well_formed_same_graph [OF g wf] .
      moreover have "has_val ?s1 a" using ab(1) by (simp add: has_val_def)
      moreover have "balanced ?s1 (a # M) []"
        using balanced_same_counts [OF g wf cnt] b unary(2) by simp
      ultimately have "\<exists>s'. Value_backprop_calc n a g ?s1 = Inr s' \<and> balanced s' M []"
        using V [of ?s1 a M g] ab(2) by blast
      then show ?thesis
        by (rule calc_unary_rule [OF k unary(1)])
    qed
  qed
qed

lemma backward_clears:
  assumes wf: "well_formed s" and c: "counters_clear s" and x: "has_val s x"
    and n: "2 * length (vals s) \<le> n"
  shows "\<exists>s'. backward n x s = Inr s' \<and> well_formed s' \<and> counters_clear s' \<and> same_graph s s'"
proof -
  obtain m where m: "n = Suc m" "2 * x < m"
    using n x by (cases n) (auto simp: has_val_def)
  have "balanced s [x] [x]" using clear_balanced [OF wf c] .
  with setup_balanced [of m] wf x m(2)
  obtain s1 where s1: "Value_backprop_setup m x s = Inr s1" "balanced s1 [x] []"
    by blast
  have g1: "same_graph s s1" using setup_same_graph(1) [OF s1(1)] .
  have wf1: "well_formed s1" using well_formed_same_graph [OF g1 wf] .
  have x1: "has_val s1 x" using x same_graph_val(1) [OF g1] by simp
  from calc_balanced [of m] wf1 x1 m(2) s1(2)
  obtain s' where s': "Value_backprop_calc m x 1 s1 = Inr s'" "balanced s' [] []"
    by blast
  have g2: "same_graph s s'"
    using calc_same_graph(1) [OF s'(1)] g1 same_graph_trans by blast
  have wf2: "well_formed s'" using well_formed_same_graph [OF g2 wf] .
  have "backward n x s = Inr s'"
    using s1(1) s'(1) m(1) by (simp add: backward.simps)
  then show ?thesis
    using wf2 balanced_clear [OF wf2 s'(2)] g2 by blast
qed



lemma backward_nonneg:
  assumes "backward n x s = Inr s'" "0 \<le> count_of s z"
  shows "0 \<le> count_of s' z"
proof (cases n)
  case 0
  with assms show ?thesis by (simp add: backward.simps)
next
  case (Suc m)
  with assms obtain s1 where
    s1: "Value_backprop_setup m x s = Inr s1" "Value_backprop_calc m x 1 s1 = Inr s'"
    by (auto simp: backward.simps split: sum.splits)
  have "setup_frame s s1" using setup_frame_all s1(1) by blast
  then have "0 \<le> count_of s1 z" using assms(2) by (auto simp: setup_frame_def intro: order_trans)
  moreover have "calc_frame s1 s'" using calc_frame_all s1(2) by blast
  ultimately show ?thesis by (simp add: calc_frame_def)
qed

text \<open>
  C5, as the claim states it, fails where the assertion fails: \<^verbatim>\<open>backprop_calc\<close>
  assigns before it asserts. On the fresh leaf \<^verbatim>\<open>a = Value(2.0, requires_grad=True)\<close>,
  \<^verbatim>\<open>a.backprop_calc(1.0)\<close> raises \<^verbatim>\<open>AssertionError\<close> and leaves the counter of \<open>a\<close> at
  \<open>-1\<close> (and its gradient at \<open>1.0\<close>): the counter did go below zero.
\<close>

theorem pending_counter_counterexample:
  "Value_backprop_calc 1 0 1 \<lparr>vals = [Value_init 2 True None], opers = [], calls = []\<rparr> =
     Inl (AssertionError,
          \<lparr>vals = [(Value_init 2 True None)\<lparr>val_grad := Some 1, val_backprop_count := - 1\<rparr>],
           opers = [], calls = []\<rparr>) \<and>
   count_of \<lparr>vals = [(Value_init 2 True None)\<lparr>val_grad := Some 1,
                val_backprop_count := - 1\<rparr>], opers = [], calls = []\<rparr> 0 < 0"
  by (simp add: Value_backprop_calc.simps has_val_def the_val_def put_val_def Value_init_def
      count_of_def)

text \<open>
  C5, amended. A call of \<^verbatim>\<open>backprop_calc\<close> on a value that requires gradients and whose
  counter is not positive raises \<^verbatim>\<open>AssertionError\<close>, but only after it has added the
  contribution to the gradient and taken one from the counter: the error leaves the
  value with the counter one lower, which is negative, and nothing else changed. Every
  call of \<^verbatim>\<open>backprop_setup\<close>, \<^verbatim>\<open>backprop_calc\<close> or \<^verbatim>\<open>backward\<close> that returns
  leaves every counter that was not negative not negative. And on a well-formed graph
  whose values that require gradients have counter \<open>0\<close>, \<^verbatim>\<open>backward\<close> from any value
  returns, under a recursion limit of twice the number of values, with the counter of
  every value that requires gradients back at \<open>0\<close>.
\<close>

theorem pending_counter:
  "(has_val s x \<and> val_requires_grad (the_val s x) \<and> count_of s x \<le> 0 \<longrightarrow>
      Value_backprop_calc (Suc n) x g s =
        Inl (AssertionError,
             put_val x ((the_val s x)\<lparr>val_grad :=
                 Some ((case val_grad (the_val s x) of None \<Rightarrow> 0 | Some r \<Rightarrow> r) + g),
               val_backprop_count := count_of s x - 1\<rparr>) s)) \<and>
   (\<forall>s' z. Value_backprop_setup n x s = Inr s' \<or> Value_backprop_calc n x g s = Inr s' \<or>
       backward n x s = Inr s' \<longrightarrow> 0 \<le> count_of s z \<longrightarrow> 0 \<le> count_of s' z) \<and>
   (well_formed s \<and> counters_clear s \<and> has_val s x \<and> 2 * length (vals s) \<le> n \<longrightarrow>
      (\<exists>s'. backward n x s = Inr s' \<and> well_formed s' \<and> counters_clear s'))"
proof (intro conjI allI impI)
  assume "has_val s x \<and> val_requires_grad (the_val s x) \<and> count_of s x \<le> 0"
  then show "Value_backprop_calc (Suc n) x g s =
        Inl (AssertionError,
             put_val x ((the_val s x)\<lparr>val_grad :=
                 Some ((case val_grad (the_val s x) of None \<Rightarrow> 0 | Some r \<Rightarrow> r) + g),
               val_backprop_count := count_of s x - 1\<rparr>) s)"
    by (simp add: Value_backprop_calc.simps Let_def count_of_def)
next
  fix s' z
  assume r: "Value_backprop_setup n x s = Inr s' \<or> Value_backprop_calc n x g s = Inr s' \<or>
       backward n x s = Inr s'" and z: "0 \<le> count_of s z"
  from r show "0 \<le> count_of s' z"
  proof (elim disjE)
    assume "Value_backprop_setup n x s = Inr s'"
    then have "setup_frame s s'" using setup_frame_all by blast
    then show ?thesis using z by (auto simp: setup_frame_def intro: order_trans)
  next
    assume "Value_backprop_calc n x g s = Inr s'"
    then have "calc_frame s s'" using calc_frame_all by blast
    then show ?thesis using z by (simp add: calc_frame_def)
  next
    assume "backward n x s = Inr s'"
    then show ?thesis using z by (rule backward_nonneg)
  qed
next
  assume "well_formed s \<and> counters_clear s \<and> has_val s x \<and> 2 * length (vals s) \<le> n"
  then show "\<exists>s'. backward n x s = Inr s' \<and> well_formed s' \<and> counters_clear s'"
    using backward_clears [of s x n] by blast
qed

text \<open>
  The graph of \<^verbatim>\<open>test_short_multipath_backprop\<close> is well-formed and its counters are
  clear; here the theorem is taken at this graph, its output and the recursion limit 12.
  \<^verbatim>\<open>out.backprop_calc(1.0)\<close> without the setup pass leaves the counter of \<open>out\<close> at
  \<open>-1\<close>; \<^verbatim>\<open>out.backward()\<close> returns with the counters clear.
\<close>

lemma short_multipath_well_formed:
  "(case short_multipath of
      Inl e \<Rightarrow> False
    | Inr (s, a, out) \<Rightarrow> well_formed s \<and> counters_clear s \<and> has_val s out \<and> has_val s a \<and>
        val_requires_grad (the_val s out) \<and> count_of s out = 0 \<and>
        length (vals s) = 6 \<and> unique_producers s \<and> unregistered s \<and> calls s = [])"
  by code_simp

theorem pending_counter_witness:
  "\<exists>s a out t s'. short_multipath = Inr (s, a, out) \<and>
     Value_backprop_calc 13 out 1 s = Inl (AssertionError, t) \<and> count_of t out = - 1 \<and>
     backward 12 out s = Inr s' \<and> well_formed s' \<and> counters_clear s' \<and> 0 \<le> count_of s' out"
proof -
  from short_multipath_well_formed obtain s a out where
    g: "short_multipath = Inr (s, a, out)" and
    h: "well_formed s" "counters_clear s" "has_val s out" "val_requires_grad (the_val s out)"
      "count_of s out = 0" "length (vals s) = 6"
    unfolding case_sum_False by auto
  have n: "2 * length (vals s) \<le> 12" using h by simp
  note t = pending_counter [of s out 12 1]
  let ?t = "put_val out ((the_val s out)\<lparr>val_grad :=
                 Some ((case val_grad (the_val s out) of None \<Rightarrow> 0 | Some r \<Rightarrow> r) + 1),
               val_backprop_count := count_of s out - 1\<rparr>) s"
  have 1: "Value_backprop_calc (Suc 12) out 1 s = Inl (AssertionError, ?t)"
    using t h by simp
  have 2: "count_of ?t out = - 1" using h by (simp add: count_of_put)
  obtain s' where s': "backward 12 out s = Inr s'" "well_formed s'" "counters_clear s'"
    using t h n by blast
  have 3: "0 \<le> count_of s' out" using t s'(1) h(5) by simp
  have "short_multipath = Inr (s, a, out) \<and>
     Value_backprop_calc 13 out 1 s = Inl (AssertionError, ?t) \<and> count_of ?t out = - 1 \<and>
     backward 12 out s = Inr s' \<and> well_formed s' \<and> counters_clear s' \<and> 0 \<le> count_of s' out"
    using g 1 2 s' 3 by simp
  then show ?thesis by blast
qed

section \<open>Every operator is set up once\<close>

lemma unique_producers_iff:
  "unique_producers s = (\<forall>x y k. has_val s x \<longrightarrow> has_val s y \<longrightarrow>
      val_op (the_val s x) = Some k \<longrightarrow> val_op (the_val s y) = Some k \<longrightarrow> x = y)"
proof -
  have "unique_producers s =
      (\<forall>x<length (vals s). \<forall>y<length (vals s). x = y \<or> val_op (the_val s x) = None \<or>
          val_op (the_val s x) \<noteq> val_op (the_val s y))"
    by (simp add: unique_producers_def list_all_iff Ball_def)
  also have "\<dots> = (\<forall>x y k. has_val s x \<longrightarrow> has_val s y \<longrightarrow>
      val_op (the_val s x) = Some k \<longrightarrow> val_op (the_val s y) = Some k \<longrightarrow> x = y)"
  proof
    assume L: "\<forall>x<length (vals s). \<forall>y<length (vals s). x = y \<or> val_op (the_val s x) = None \<or>
          val_op (the_val s x) \<noteq> val_op (the_val s y)"
    show "\<forall>x y k. has_val s x \<longrightarrow> has_val s y \<longrightarrow>
      val_op (the_val s x) = Some k \<longrightarrow> val_op (the_val s y) = Some k \<longrightarrow> x = y"
    proof (intro allI impI)
      fix x y k
      assume a: "has_val s x" "has_val s y" "val_op (the_val s x) = Some k"
        "val_op (the_val s y) = Some k"
      then have "x = y \<or> val_op (the_val s x) = None \<or>
          val_op (the_val s x) \<noteq> val_op (the_val s y)"
        using L unfolding has_val_def by blast
      with a show "x = y" by simp
    qed
  next
    assume R: "\<forall>x y k. has_val s x \<longrightarrow> has_val s y \<longrightarrow>
      val_op (the_val s x) = Some k \<longrightarrow> val_op (the_val s y) = Some k \<longrightarrow> x = y"
    show "\<forall>x<length (vals s). \<forall>y<length (vals s). x = y \<or> val_op (the_val s x) = None \<or>
          val_op (the_val s x) \<noteq> val_op (the_val s y)"
    proof (intro allI impI)
      fix x y
      assume a: "x < length (vals s)" "y < length (vals s)"
      show "x = y \<or> val_op (the_val s x) = None \<or>
          val_op (the_val s x) \<noteq> val_op (the_val s y)"
      proof (cases "val_op (the_val s x)")
        case None
        then show ?thesis by simp
      next
        case (Some k)
        then show ?thesis
          using R [rule_format, of x y k] a by (auto simp: has_val_def)
      qed
    qed
  qed
  finally show ?thesis .
qed




lemma setup_calls_simps [simp]:
  "setup_calls (put_val x w s) = setup_calls s"
  "setup_calls (log_call (SetupCall k) s) = setup_calls s @ [k]"
  "setup_calls (log_call (CalcCall k g) s) = setup_calls s"
  "setup_calls (s\<lparr>opers := q\<rparr>) = setup_calls s"
  by (simp_all add: setup_calls_def)













section \<open>A second \<^verbatim>\<open>backward\<close> on the same output\<close>

text \<open>
  C9, as the claim states it, fails on \<^verbatim>\<open>out = a + b\<close>: the gradient of the leaf \<open>a\<close>
  is \<open>1\<close> after the first \<^verbatim>\<open>out.backward()\<close> and \<open>3\<close>, not \<open>2\<close>, after the second.
\<close>

theorem second_backward_counterexample:
  "add_backward_twice = Inr (Some 1, Some 3) \<and> (3::real) \<noteq> 2 * 1"
proof
  show "add_backward_twice = Inr (Some 1, Some 3)" by code_simp
  show "(3::real) \<noteq> 2 * 1" by simp
qed

lemma reaches_le:
  assumes "well_formed s" "reaches s y z" "has_val s y"
  shows "z \<le> y"
  using assms(2,3)
proof (induction rule: reaches.induct)
  case (reaches_self x)
  show ?case by simp
next
  case (reaches_step x k y z)
  have "y < x"
    using assms(1) reaches_step(1,3,6) unfolding well_formed_iff by blast
  moreover have "has_val s y" using \<open>y < x\<close> reaches_step(6) by (simp add: has_val_def)
  ultimately show ?case using reaches_step(5) by simp
qed

lemma backward_root_grad:
  assumes wf: "well_formed s" and x: "has_val s x" "val_requires_grad (the_val s x)"
    and r: "backward n x s = Inr s'"
  shows "grad_of s' x = Some ((case grad_of s x of None \<Rightarrow> 0 | Some r \<Rightarrow> r) + 1)"
proof -
  from r obtain m where n: "n = Suc m" by (cases n) (auto simp: backward.simps)
  with r obtain s1 where
    s1: "Value_backprop_setup m x s = Inr s1" "Value_backprop_calc m x 1 s1 = Inr s'"
    by (auto simp: backward.simps split: sum.splits)
  from s1(2) obtain m' where m: "m = Suc m'"
    by (cases m) (auto simp: Value_backprop_calc.simps)
  have f1: "setup_frame s s1" using setup_frame_all s1(1) by blast
  then have g01: "same_graph s s1" and gr: "grad_of s1 x = grad_of s x"
    by (simp_all add: setup_frame_def)
  have x1: "has_val s1 x" "val_requires_grad (the_val s1 x)"
    using x same_graph_val [OF g01] by simp_all
  define g1 where "g1 = (case val_grad (the_val s1 x) of None \<Rightarrow> 0 | Some r \<Rightarrow> r) + 1"
  define w where
    "w = (the_val s1 x)\<lparr>val_grad := Some g1, val_backprop_count := count_of s1 x - 1\<rparr>"
  let ?s2 = "put_val x w s1"
  have c: "s' = ?s2 \<or> (\<exists>k. val_op (the_val s1 x) = Some k \<and>
      Operator_backprop_calc m' k g1 ?s2 = Inr s')"
    using s1(2) x1 unfolding m w_def g1_def
    by (auto simp: Value_backprop_calc.simps Let_def count_of_def
        split: option.splits if_splits)
  have g12: "same_graph s1 ?s2" using x1 by (intro same_graph_put) (simp_all add: w_def)
  have wf2: "well_formed ?s2"
    using well_formed_same_graph [OF g12 well_formed_same_graph [OF g01 wf]] .
  have v2: "grad_of ?s2 x = Some g1" using x1 by (simp add: grad_of_def the_val_put w_def)
  have "the_val s' x = the_val ?s2 x"
    using c
  proof
    assume "s' = ?s2"
    then show ?thesis by simp
  next
    assume "\<exists>k. val_op (the_val s1 x) = Some k \<and> Operator_backprop_calc m' k g1 ?s2 = Inr s'"
    then obtain k where k: "val_op (the_val s1 x) = Some k"
      and rk: "Operator_backprop_calc m' k g1 ?s2 = Inr s'" by blast
    have k2: "val_op (the_val ?s2 x) = Some k" "has_val ?s2 x"
      using k x1 by (simp_all add: the_val_put w_def)
    have "\<forall>y\<in>set (operands (opers ?s2 ! k)). \<not> reaches ?s2 y x"
    proof
      fix y
      assume y: "y \<in> set (operands (opers ?s2 ! k))"
      have "y < x" using wf2 k2 y unfolding well_formed_iff by blast
      moreover have "has_val ?s2 y" using \<open>y < x\<close> k2(2) by (simp add: has_val_def)
      ultimately show "\<not> reaches ?s2 y x"
        using reaches_le [OF wf2, of y x] by auto
    qed
    then show ?thesis using calc_untouched rk by blast
  qed
  then have "grad_of s' x = Some g1" using v2 by (simp add: grad_of_def)
  then show ?thesis using gr by (simp add: g1_def grad_of_def)
qed

lemma backward_twice_root:
  assumes wf: "well_formed s" and c: "counters_clear s" and x: "has_val s x"
    "val_requires_grad (the_val s x)" and n: "2 * length (vals s) \<le> n"
  shows "\<exists>s1 s2 g. backward n x s = Inr s1 \<and> backward n x s1 = Inr s2 \<and>
     grad_of s1 x = Some g \<and> grad_of s2 x = Some (g + 1) \<and>
     (grad_of s x = None \<longrightarrow> g = 1 \<and> grad_of s2 x = Some (2 * g))"
proof -
  from backward_clears [OF wf c x(1) n] obtain s1 where
    s1: "backward n x s = Inr s1" "well_formed s1" "counters_clear s1" "same_graph s s1"
    by blast
  have x1: "has_val s1 x" "val_requires_grad (the_val s1 x)"
    using x same_graph_val [OF s1(4)] by simp_all
  have "length (vals s1) = length (vals s)" using s1(4) by (simp add: same_graph_def)
  with backward_clears [OF s1(2,3) x1(1)] n obtain s2 where
    s2: "backward n x s1 = Inr s2"
    by auto
  define g where "g = (case grad_of s x of None \<Rightarrow> 0 | Some r \<Rightarrow> r) + 1"
  have a: "grad_of s1 x = Some g"
    using backward_root_grad [OF wf x s1(1)] by (simp add: g_def)
  have b: "grad_of s2 x = Some (g + 1)"
    using backward_root_grad [OF s1(2) x1 s2] a by simp
  have "grad_of s x = None \<longrightarrow> g = 1 \<and> grad_of s2 x = Some (2 * g)"
    using b by (simp add: g_def)
  with s1(1) s2 a b show ?thesis
    by (intro exI [of _ s1] exI [of _ s2] exI [of _ g]) simp
qed

lemma binary_pass:
  assumes v: "has_val t a" "has_val t b" "has_val t out" "has_oper t k"
    and ne: "a \<noteq> b" "a \<noteq> out" "b \<noteq> out"
    and fa: "the_val t a = \<lparr>val_v = va, val_requires_grad = True, val_grad = Ga,
               val_op = None, val_backprop_count = 0\<rparr>"
    and fb: "the_val t b = \<lparr>val_v = vb, val_requires_grad = True, val_grad = Gb,
               val_op = None, val_backprop_count = 0\<rparr>"
    and fo: "the_val t out = \<lparr>val_v = vo, val_requires_grad = True, val_grad = Go,
               val_op = Some k, val_backprop_count = 0\<rparr>"
    and p: "opers t ! k = AddOp a b \<and> da = 1 \<and> db = 1 \<or>
            opers t ! k = SubOp a b \<and> da = 1 \<and> db = - 1 \<or>
            opers t ! k = MulOp a b \<and> da = vb \<and> db = va"
    and go: "go = (case Go of None \<Rightarrow> 0 | Some r \<Rightarrow> r) + 1"
  shows "\<exists>t'. backward (Suc (Suc (Suc (Suc n)))) out t = Inr t' \<and>
     has_val t' a \<and> has_val t' b \<and> has_val t' out \<and> has_oper t' k \<and>
     opers t' ! k = opers t ! k \<and>
     the_val t' a = \<lparr>val_v = va, val_requires_grad = True,
        val_grad = Some ((case Ga of None \<Rightarrow> 0 | Some r \<Rightarrow> r) + go * da),
        val_op = None, val_backprop_count = 0\<rparr> \<and>
     the_val t' b = \<lparr>val_v = vb, val_requires_grad = True,
        val_grad = Some ((case Gb of None \<Rightarrow> 0 | Some r \<Rightarrow> r) + go * db),
        val_op = None, val_backprop_count = 0\<rparr> \<and>
     the_val t' out = \<lparr>val_v = vo, val_requires_grad = True, val_grad = Some go,
        val_op = Some k, val_backprop_count = 0\<rparr>"
  using p v ne fa fb fo go
  apply (elim disjE)
    apply (simp_all add: backward.simps Value_backprop_setup.simps
      Operator_backprop_setup.simps Let_def has_val_def has_oper_def the_val_def put_val_def
      log_call_def nth_list_update)
    apply (simp_all add: Value_backprop_calc.simps Operator_backprop_calc.simps Let_def
      has_val_def has_oper_def the_val_def put_val_def log_call_def
      nth_list_update item_def)
  done

lemma binary_leaves_twice:
  assumes a: "has_val s a" and b: "has_val s b" and ne: "a \<noteq> b"
    and fa: "the_val s a = Value_init va True None"
    and fb: "the_val s b = Value_init vb True None"
    and p: "p = AddOp a b \<and> ga = 1 \<and> gb = 1 \<or> p = SubOp a b \<and> ga = 1 \<and> gb = - 1 \<or>
            p = MulOp a b \<and> ga = vb \<and> gb = va"
    and s2: "s2 = fst (alloc_oper p s)" "k = snd (alloc_oper p s)"
  shows "\<exists>s3 out s4 s5. forward k s2 = Inr (s3, out) \<and>
     backward (Suc (Suc (Suc (Suc n)))) out s3 = Inr s4 \<and>
     backward (Suc (Suc (Suc (Suc n)))) out s4 = Inr s5 \<and>
     grad_of s4 a = Some ga \<and> grad_of s4 b = Some gb \<and> grad_of s4 out = Some 1 \<and>
     grad_of s5 a = Some (3 * ga) \<and> grad_of s5 b = Some (3 * gb) \<and> grad_of s5 out = Some 2"
proof -
  let ?out = "length (vals s)"
  obtain s3 vo where f: "forward k s2 = Inr (s3, ?out)"
    and v3: "has_val s3 a" "has_val s3 b" "has_val s3 ?out" "has_oper s3 k"
    and o3: "opers s3 ! k = p"
    and t3: "the_val s3 a = \<lparr>val_v = va, val_requires_grad = True, val_grad = None,
               val_op = None, val_backprop_count = 0\<rparr>"
      "the_val s3 b = \<lparr>val_v = vb, val_requires_grad = True, val_grad = None,
               val_op = None, val_backprop_count = 0\<rparr>"
      "the_val s3 ?out = \<lparr>val_v = vo, val_requires_grad = True, val_grad = None,
               val_op = Some k, val_backprop_count = 0\<rparr>"
    using assms
    by (auto simp: forward_def has_oper_def alloc_oper_def binary_forward_def
        BinaryOp_requires_grad_def has_val_def the_val_def new_Value_def alloc_val_def
        Value_init_def nth_append)
  have ne3: "a \<noteq> ?out" "b \<noteq> ?out" using a b by (auto simp: has_val_def)
  have p3: "opers s3 ! k = AddOp a b \<and> ga = 1 \<and> gb = 1 \<or>
            opers s3 ! k = SubOp a b \<and> ga = 1 \<and> gb = - 1 \<or>
            opers s3 ! k = MulOp a b \<and> ga = vb \<and> gb = va"
    using p o3 by simp
  from binary_pass [OF v3 ne ne3 t3 p3, of 1 n]
  obtain s4 where r4: "backward (Suc (Suc (Suc (Suc n)))) ?out s3 = Inr s4"
    and v4: "has_val s4 a" "has_val s4 b" "has_val s4 ?out" "has_oper s4 k"
    and o4: "opers s4 ! k = opers s3 ! k"
    and t4: "the_val s4 a = \<lparr>val_v = va, val_requires_grad = True, val_grad = Some ga,
               val_op = None, val_backprop_count = 0\<rparr>"
      "the_val s4 b = \<lparr>val_v = vb, val_requires_grad = True, val_grad = Some gb,
               val_op = None, val_backprop_count = 0\<rparr>"
      "the_val s4 ?out = \<lparr>val_v = vo, val_requires_grad = True, val_grad = Some 1,
               val_op = Some k, val_backprop_count = 0\<rparr>"
    by auto
  have p4: "opers s4 ! k = AddOp a b \<and> ga = 1 \<and> gb = 1 \<or>
            opers s4 ! k = SubOp a b \<and> ga = 1 \<and> gb = - 1 \<or>
            opers s4 ! k = MulOp a b \<and> ga = vb \<and> gb = va"
    using p3 o4 by simp
  from binary_pass [OF v4 ne ne3 t4 p4, of 2 n]
  obtain s5 where r5: "backward (Suc (Suc (Suc (Suc n)))) ?out s4 = Inr s5"
    and t5: "the_val s5 a = \<lparr>val_v = va, val_requires_grad = True,
               val_grad = Some (ga + 2 * ga), val_op = None, val_backprop_count = 0\<rparr>"
      "the_val s5 b = \<lparr>val_v = vb, val_requires_grad = True,
               val_grad = Some (gb + 2 * gb), val_op = None, val_backprop_count = 0\<rparr>"
      "the_val s5 ?out = \<lparr>val_v = vo, val_requires_grad = True, val_grad = Some 2,
               val_op = Some k, val_backprop_count = 0\<rparr>"
    by auto
  show ?thesis
    by (intro exI [of _ s3] exI [of _ ?out] exI [of _ s4] exI [of _ s5])
       (simp add: f r4 r5 t4 t5 grad_of_def)
qed


text \<open>
  C9, amended. Gradients are never reset between passes. On a well-formed graph whose
  counters are clear, a second \<^verbatim>\<open>backward()\<close> on the same output returns as the first
  did, and adds \<open>1\<close> to the gradient of the output: the gradient of the output (which
  is the leaf, when the expression is a single leaf) is exactly twice what it was after
  the first call when it started absent. A leaf below an operator does not double: the
  output passes its accumulated gradient \<open>2\<close> down, which is added to what the first
  pass left, so that for \<^verbatim>\<open>a + b\<close>, \<^verbatim>\<open>a - b\<close> and \<^verbatim>\<open>a * b\<close> over two distinct
  fresh leaves that require gradients each leaf ends with three times the gradient it
  had after the first call.
\<close>

theorem second_backward:
  "(well_formed s \<and> counters_clear s \<and> has_val s x \<and> val_requires_grad (the_val s x) \<and>
      2 * length (vals s) \<le> n \<longrightarrow>
      (\<exists>s1 s2 g. backward n x s = Inr s1 \<and> backward n x s1 = Inr s2 \<and>
         grad_of s1 x = Some g \<and> grad_of s2 x = Some (g + 1) \<and>
         (grad_of s x = None \<longrightarrow> g = 1 \<and> grad_of s2 x = Some (2 * g)))) \<and>
   (has_val s a \<and> has_val s b \<and> a \<noteq> b \<and> the_val s a = Value_init va True None \<and>
      the_val s b = Value_init vb True None \<longrightarrow>
      (\<exists>s0 out s1 s2. Value_add a (PyValue b) s = Inr (s0, out) \<and>
         backward (4 + n) out s0 = Inr s1 \<and> backward (4 + n) out s1 = Inr s2 \<and>
         grad_of s1 out = Some 1 \<and> grad_of s2 out = Some 2 \<and>
         grad_of s1 a = Some 1 \<and> grad_of s2 a = Some 3 \<and>
         grad_of s1 b = Some 1 \<and> grad_of s2 b = Some 3) \<and>
      (\<exists>s0 out s1 s2. Value_sub a (PyValue b) s = Inr (s0, out) \<and>
         backward (4 + n) out s0 = Inr s1 \<and> backward (4 + n) out s1 = Inr s2 \<and>
         grad_of s1 out = Some 1 \<and> grad_of s2 out = Some 2 \<and>
         grad_of s1 a = Some 1 \<and> grad_of s2 a = Some 3 \<and>
         grad_of s1 b = Some (- 1) \<and> grad_of s2 b = Some (- 3)) \<and>
      (\<exists>s0 out s1 s2. Value_mul a (PyValue b) s = Inr (s0, out) \<and>
         backward (4 + n) out s0 = Inr s1 \<and> backward (4 + n) out s1 = Inr s2 \<and>
         grad_of s1 out = Some 1 \<and> grad_of s2 out = Some 2 \<and>
         grad_of s1 a = Some vb \<and> grad_of s2 a = Some (3 * vb) \<and>
         grad_of s1 b = Some va \<and> grad_of s2 b = Some (3 * va)))"
proof (intro conjI impI)
  assume "well_formed s \<and> counters_clear s \<and> has_val s x \<and> val_requires_grad (the_val s x) \<and>
      2 * length (vals s) \<le> n"
  then show "\<exists>s1 s2 g. backward n x s = Inr s1 \<and> backward n x s1 = Inr s2 \<and>
         grad_of s1 x = Some g \<and> grad_of s2 x = Some (g + 1) \<and>
         (grad_of s x = None \<longrightarrow> g = 1 \<and> grad_of s2 x = Some (2 * g))"
    using backward_twice_root [of s x n] by blast
next
  assume h: "has_val s a \<and> has_val s b \<and> a \<noteq> b \<and> the_val s a = Value_init va True None \<and>
      the_val s b = Value_init vb True None"
  have n: "4 + n = Suc (Suc (Suc (Suc n)))" by simp
  from h show "\<exists>s0 out s1 s2. Value_add a (PyValue b) s = Inr (s0, out) \<and>
         backward (4 + n) out s0 = Inr s1 \<and> backward (4 + n) out s1 = Inr s2 \<and>
         grad_of s1 out = Some 1 \<and> grad_of s2 out = Some 2 \<and>
         grad_of s1 a = Some 1 \<and> grad_of s2 a = Some 3 \<and>
         grad_of s1 b = Some 1 \<and> grad_of s2 b = Some 3"
    using binary_leaves_twice [of s a b va vb "AddOp a b" 1 1 _ _ n]
    unfolding n by (simp add: Value_add_def split_beta) blast
  from h show "\<exists>s0 out s1 s2. Value_sub a (PyValue b) s = Inr (s0, out) \<and>
         backward (4 + n) out s0 = Inr s1 \<and> backward (4 + n) out s1 = Inr s2 \<and>
         grad_of s1 out = Some 1 \<and> grad_of s2 out = Some 2 \<and>
         grad_of s1 a = Some 1 \<and> grad_of s2 a = Some 3 \<and>
         grad_of s1 b = Some (- 1) \<and> grad_of s2 b = Some (- 3)"
    using binary_leaves_twice [of s a b va vb "SubOp a b" 1 "- 1" _ _ n]
    unfolding n by (simp add: Value_sub_def split_beta) blast
  from h show "\<exists>s0 out s1 s2. Value_mul a (PyValue b) s = Inr (s0, out) \<and>
         backward (4 + n) out s0 = Inr s1 \<and> backward (4 + n) out s1 = Inr s2 \<and>
         grad_of s1 out = Some 1 \<and> grad_of s2 out = Some 2 \<and>
         grad_of s1 a = Some vb \<and> grad_of s2 a = Some (3 * vb) \<and>
         grad_of s1 b = Some va \<and> grad_of s2 b = Some (3 * va)"
    using binary_leaves_twice [of s a b va vb "MulOp a b" vb va _ _ n]
    unfolding n by (simp add: Value_mul_def split_beta) blast
qed

theorem second_backward_witness:
  "(\<exists>s a out s1 s2 g. short_multipath = Inr (s, a, out) \<and>
      backward 12 out s = Inr s1 \<and> backward 12 out s1 = Inr s2 \<and>
      grad_of s1 out = Some g \<and> grad_of s2 out = Some (g + 1)) \<and>
   (\<exists>s0 out s1 s2.
      Value_add 0 (PyValue 1)
        \<lparr>vals = [Value_init 3 True None, Value_init 2 True None], opers = [], calls = []\<rparr> =
        Inr (s0, out) \<and>
      backward 4 out s0 = Inr s1 \<and> backward 4 out s1 = Inr s2 \<and>
      grad_of s1 0 = Some 1 \<and> grad_of s2 0 = Some 3)"
proof
  from short_multipath_well_formed obtain s a out where
    g: "short_multipath = Inr (s, a, out)" and
    h: "well_formed s" "counters_clear s" "has_val s out" "val_requires_grad (the_val s out)"
      "length (vals s) = 6"
    unfolding case_sum_False by auto
  have "2 * length (vals s) \<le> 12" using h by simp
  with h have "\<exists>s1 s2 g. backward 12 out s = Inr s1 \<and> backward 12 out s1 = Inr s2 \<and>
      grad_of s1 out = Some g \<and> grad_of s2 out = Some (g + 1)"
    using second_backward [where s = s and x = out and n = 12] by blast
  with g show "\<exists>s a out s1 s2 g. short_multipath = Inr (s, a, out) \<and>
      backward 12 out s = Inr s1 \<and> backward 12 out s1 = Inr s2 \<and>
      grad_of s1 out = Some g \<and> grad_of s2 out = Some (g + 1)"
    by blast
next
  let ?s = "\<lparr>vals = [Value_init 3 True None, Value_init 2 True None], opers = [],
              calls = []\<rparr>"
  have h: "has_val ?s 0 \<and> has_val ?s 1 \<and> (0::nat) \<noteq> 1 \<and>
    the_val ?s 0 = Value_init 3 True None \<and> the_val ?s 1 = Value_init 2 True None"
    by (simp add: has_val_def the_val_def)
  have "\<exists>s0 out s1 s2. Value_add 0 (PyValue 1) ?s = Inr (s0, out) \<and>
         backward (4 + 0) out s0 = Inr s1 \<and> backward (4 + 0) out s1 = Inr s2 \<and>
         grad_of s1 out = Some 1 \<and> grad_of s2 out = Some 2 \<and>
         grad_of s1 0 = Some 1 \<and> grad_of s2 0 = Some 3 \<and>
         grad_of s1 1 = Some 1 \<and> grad_of s2 1 = Some 3"
    using second_backward [where s = ?s and a = 0 and b = 1 and va = 3 and vb = 2 and n = 0] h
    by blast
  then show "\<exists>s0 out s1 s2. Value_add 0 (PyValue 1) ?s = Inr (s0, out) \<and>
      backward 4 out s0 = Inr s1 \<and> backward 4 out s1 = Inr s2 \<and>
      grad_of s1 0 = Some 1 \<and> grad_of s2 0 = Some 3"
    by auto
qed


section \<open>Graphs built by the constructor and the operators\<close>

text \<open>
  The hypotheses of the theorems on whole passes hold for every graph the program can
  build: the empty store is well-formed, and a new leaf, \<^verbatim>\<open>+\<close>, \<^verbatim>\<open>-\<close>, \<^verbatim>\<open>*\<close> and
  \<^verbatim>\<open>PassThroughOp(a).forward()\<close> keep a store well-formed, keep its producers unique
  and its counters clear, and log nothing.
\<close>

lemma the_val_append:
  "the_val (s\<lparr>vals := vals s @ [w]\<rparr>) x =
     (if x < length (vals s) then the_val s x else if x = length (vals s) then w
      else the_val (s\<lparr>vals := vals s @ [w]\<rparr>) x)"
  by (simp add: the_val_def nth_append)

lemma append_val_well_formed:
  assumes wf: "well_formed s"
    and w: "val_op w = None \<or> (\<exists>k. val_op w = Some k \<and> has_oper s k \<and>
        defines_calc (opers s ! k) \<and>
        (\<forall>y\<in>set (operands (opers s ! k)). has_val s y \<and>
           (val_requires_grad (the_val s y) \<longrightarrow> val_requires_grad w)))"
  shows "well_formed (s\<lparr>vals := vals s @ [w]\<rparr>)"
  unfolding well_formed_iff
proof (intro allI impI)
  let ?t = "s\<lparr>vals := vals s @ [w]\<rparr>"
  fix x k
  assume x: "has_val ?t x" and k: "val_op (the_val ?t x) = Some k"
  have old: "the_val ?t y = the_val s y" if "has_val s y" for y
    using that by (simp add: the_val_def has_val_def nth_append)
  show "has_oper ?t k \<and> defines_calc (opers ?t ! k) \<and>
       (\<forall>y\<in>set (operands (opers ?t ! k)). y < x \<and>
          (val_requires_grad (the_val ?t y) \<longrightarrow> val_requires_grad (the_val ?t x)))"
  proof (cases "has_val s x")
    case True
    then have "val_op (the_val s x) = Some k" using k old by simp
    with wf True have c: "has_oper s k" "defines_calc (opers s ! k)"
      "\<forall>y\<in>set (operands (opers s ! k)). y < x \<and>
          (val_requires_grad (the_val s y) \<longrightarrow> val_requires_grad (the_val s x))"
      unfolding well_formed_iff by blast+
    have "\<forall>y\<in>set (operands (opers s ! k)). has_val s y"
      using c(3) True by (auto simp: has_val_def)
    then show ?thesis using c old True by (auto simp: has_oper_def)
  next
    case False
    then have xl: "x = length (vals s)" using x by (simp add: has_val_def)
    then have tw: "the_val ?t x = w" by (simp add: the_val_def)
    with k w obtain c: "has_oper s k" "defines_calc (opers s ! k)"
      "\<forall>y\<in>set (operands (opers s ! k)). has_val s y \<and>
           (val_requires_grad (the_val s y) \<longrightarrow> val_requires_grad w)"
      by auto
    then show ?thesis using old tw xl by (auto simp: has_oper_def has_val_def)
  qed
qed

lemma append_oper_well_formed:
  assumes wf: "well_formed s"
  shows "well_formed (s\<lparr>opers := opers s @ [p]\<rparr>)"
  using wf unfolding well_formed_iff
  by (simp add: has_val_def has_oper_def the_val_def nth_append) (metis less_SucI)

lemma forward_producer:
  assumes "forward k s = Inr (s', r)"
  shows "\<exists>w. s' = s\<lparr>vals := vals s @ [w]\<rparr> \<and>
     (val_op w = None \<or> (val_op w = Some k \<and> has_oper s k \<and>
        defines_calc (opers s ! k) \<and>
        (\<forall>y\<in>set (operands (opers s ! k)). has_val s y \<and>
           (val_requires_grad (the_val s y) \<longrightarrow> val_requires_grad w))))"
proof -
  have k: "has_oper s k" using assms by (auto simp: forward_def split: if_splits)
  show ?thesis
    using assms k
    by (cases "opers s ! k")
       (auto simp: forward_def binary_forward_def BinaryOp_requires_grad_def new_Value_def
          alloc_val_def Value_init_def split: sum.splits if_splits)
qed

lemma new_Value_well_formed:
  assumes "well_formed s"
  shows "well_formed (fst (new_Value v rg None s))"
  using append_val_well_formed [OF assms, of "Value_init v rg None"]
  by (simp add: new_Value_def alloc_val_def Value_init_def)

lemma coerce_well_formed:
  assumes "well_formed s" "coerce other s = Inr (s1, b)"
  shows "well_formed s1"
proof (cases other)
  case (PyFloat x)
  then have "s1 = fst (new_Value x False None s)" using assms(2) by (simp add: fst_def split: prod.splits) 
  then show ?thesis using new_Value_well_formed [OF assms(1)] by simp
qed (use assms in auto)

lemma constructed_well_formed:
  "well_formed empty_store"
  "well_formed s \<Longrightarrow> well_formed (fst (new_Value v rg None s))"
  "well_formed s \<Longrightarrow> Value_add a other s = Inr (s', r) \<or> Value_sub a other s = Inr (s', r) \<or>
      Value_mul a other s = Inr (s', r) \<or> pass_through a s = Inr (s', r) \<Longrightarrow> well_formed s'"
proof -
  show "well_formed empty_store" by (simp add: well_formed_def empty_store_def)
  show "well_formed s \<Longrightarrow> well_formed (fst (new_Value v rg None s))"
    by (rule new_Value_well_formed)
  assume wf: "well_formed s"
    and c: "Value_add a other s = Inr (s', r) \<or> Value_sub a other s = Inr (s', r) \<or>
      Value_mul a other s = Inr (s', r) \<or> pass_through a s = Inr (s', r)"
  from c obtain s1 p where s1: "well_formed s1"
    and f: "forward (length (opers s1)) (s1\<lparr>opers := opers s1 @ [p]\<rparr>) = Inr (s', r)"
  proof (elim disjE)
    assume "pass_through a s = Inr (s', r)"
    then have "forward (length (opers s)) (s\<lparr>opers := opers s @ [PassThroughOp a 0]\<rparr>) = Inr (s', r)"
      by (simp add: pass_through_def alloc_oper_def)
    with wf that show ?thesis by blast
  next
    assume "Value_add a other s = Inr (s', r)"
    then obtain s1 b where "coerce other s = Inr (s1, b)"
      "forward (length (opers s1)) (s1\<lparr>opers := opers s1 @ [AddOp a b]\<rparr>) = Inr (s', r)"
      by (auto simp: Value_add_def alloc_oper_def split: sum.splits prod.splits)
    moreover from this(1) have "well_formed s1"
      using wf coerce_well_formed by blast
    ultimately show ?thesis using that by blast
  next
    assume "Value_sub a other s = Inr (s', r)"
    then obtain s1 b where "coerce other s = Inr (s1, b)"
      "forward (length (opers s1)) (s1\<lparr>opers := opers s1 @ [SubOp a b]\<rparr>) = Inr (s', r)"
      by (auto simp: Value_sub_def alloc_oper_def split: sum.splits prod.splits)
    moreover from this(1) have "well_formed s1"
      using wf coerce_well_formed by blast
    ultimately show ?thesis using that by blast
  next
    assume "Value_mul a other s = Inr (s', r)"
    then obtain s1 b where "coerce other s = Inr (s1, b)"
      "forward (length (opers s1)) (s1\<lparr>opers := opers s1 @ [MulOp a b]\<rparr>) = Inr (s', r)"
      by (auto simp: Value_mul_def alloc_oper_def split: sum.splits prod.splits)
    moreover from this(1) have "well_formed s1"
      using wf coerce_well_formed by blast
    ultimately show ?thesis using that by blast
  qed
  let ?s2 = "s1\<lparr>opers := opers s1 @ [p]\<rparr>"
  have wf2: "well_formed ?s2" using append_oper_well_formed [OF s1] .
  from forward_producer [OF f] obtain w where
    w: "s' = ?s2\<lparr>vals := vals ?s2 @ [w]\<rparr>"
    "val_op w = None \<or> (val_op w = Some (length (opers s1)) \<and> has_oper ?s2 (length (opers s1)) \<and>
        defines_calc (opers ?s2 ! length (opers s1)) \<and>
        (\<forall>y\<in>set (operands (opers ?s2 ! length (opers s1))). has_val ?s2 y \<and>
           (val_requires_grad (the_val ?s2 y) \<longrightarrow> val_requires_grad w)))"
    by blast
  show "well_formed s'"
    unfolding w(1) by (rule append_val_well_formed [OF wf2]) (use w(2) in blast)
qed


lemma append_val_counters:
  assumes "val_backprop_count w = 0"
  shows "counters_clear s \<Longrightarrow> counters_clear (s\<lparr>vals := vals s @ [w]\<rparr>)"
    and "unregistered s \<Longrightarrow> unregistered (s\<lparr>vals := vals s @ [w]\<rparr>)"
  using assms by (simp_all add: counters_clear_def unregistered_def)

lemma append_val_unique:
  assumes u: "unique_producers s"
    and w: "val_op w = None \<or> (\<exists>k. val_op w = Some k \<and>
               (\<forall>x. has_val s x \<longrightarrow> val_op (the_val s x) \<noteq> Some k))"
  shows "unique_producers (s\<lparr>vals := vals s @ [w]\<rparr>)"
  unfolding unique_producers_iff
proof (intro allI impI)
  let ?t = "s\<lparr>vals := vals s @ [w]\<rparr>"
  fix x y k
  assume a: "has_val ?t x" "has_val ?t y" "val_op (the_val ?t x) = Some k"
    "val_op (the_val ?t y) = Some k"
  have c: "has_val s z \<or> z = length (vals s)" if "has_val ?t z" for z
    using that by (auto simp: has_val_def)
  have old: "the_val ?t z = the_val s z" if "has_val s z" for z
    using that by (simp add: the_val_def has_val_def nth_append)
  have new: "the_val ?t (length (vals s)) = w" by (simp add: the_val_def)
  from c [OF a(1)] c [OF a(2)] show "x = y"
  proof (elim disjE)
    assume h: "has_val s x" "has_val s y"
    then have "val_op (the_val s x) = Some k" "val_op (the_val s y) = Some k"
      using a old by simp_all
    with h show ?thesis using u unfolding unique_producers_iff by blast
  next
    assume "has_val s x" "y = length (vals s)"
    then show ?thesis using a old new w by auto
  next
    assume "x = length (vals s)" "has_val s y"
    then show ?thesis using a old new w by auto
  qed simp
qed

lemma coerce_vals:
  assumes "coerce other s = Inr (s1, b)"
  shows "s1 = s \<or> (\<exists>v. s1 = s\<lparr>vals := vals s @ [Value_init v False None]\<rparr>)"
  using assms
  by (cases other) (auto simp: new_Value_def alloc_val_def)

lemma constructed_counters:
  assumes wf: "well_formed s" and u: "unique_producers s" and cc: "counters_clear s"
    and ur: "unregistered s"
    and c: "Value_add a other s = Inr (s', r) \<or> Value_sub a other s = Inr (s', r) \<or>
      Value_mul a other s = Inr (s', r) \<or> pass_through a s = Inr (s', r)"
  shows "unique_producers s' \<and> counters_clear s' \<and> unregistered s' \<and> calls s' = calls s"
proof -
  from c obtain s1 p where
    s1: "s1 = s \<or> (\<exists>v. s1 = s\<lparr>vals := vals s @ [Value_init v False None]\<rparr>)"
    and f: "forward (length (opers s1)) (s1\<lparr>opers := opers s1 @ [p]\<rparr>) = Inr (s', r)"
  proof (elim disjE)
    assume "pass_through a s = Inr (s', r)"
    then have "forward (length (opers s)) (s\<lparr>opers := opers s @ [PassThroughOp a 0]\<rparr>) = Inr (s', r)"
      by (simp add: pass_through_def alloc_oper_def)
    then show ?thesis by (rule that [OF disjI1 [OF refl]])
  next
    assume "Value_add a other s = Inr (s', r)"
    then obtain s1 b where co: "coerce other s = Inr (s1, b)" and
      fw: "forward (length (opers s1)) (s1\<lparr>opers := opers s1 @ [AddOp a b]\<rparr>) = Inr (s', r)"
      by (auto simp: Value_add_def alloc_oper_def split: sum.splits prod.splits)
    show ?thesis by (rule that [OF coerce_vals [OF co] fw])
  next
    assume "Value_sub a other s = Inr (s', r)"
    then obtain s1 b where co: "coerce other s = Inr (s1, b)" and
      fw: "forward (length (opers s1)) (s1\<lparr>opers := opers s1 @ [SubOp a b]\<rparr>) = Inr (s', r)"
      by (auto simp: Value_sub_def alloc_oper_def split: sum.splits prod.splits)
    show ?thesis by (rule that [OF coerce_vals [OF co] fw])
  next
    assume "Value_mul a other s = Inr (s', r)"
    then obtain s1 b where co: "coerce other s = Inr (s1, b)" and
      fw: "forward (length (opers s1)) (s1\<lparr>opers := opers s1 @ [MulOp a b]\<rparr>) = Inr (s', r)"
      by (auto simp: Value_mul_def alloc_oper_def split: sum.splits prod.splits)
    show ?thesis by (rule that [OF coerce_vals [OF co] fw])
  qed
  have i1: "well_formed s1 \<and> unique_producers s1 \<and> counters_clear s1 \<and> unregistered s1 \<and>
      calls s1 = calls s"
    using s1
  proof (elim disjE exE)
    assume "s1 = s"
    then show ?thesis using wf u cc ur by simp
  next
    fix v
    assume e: "s1 = s\<lparr>vals := vals s @ [Value_init v False None]\<rparr>"
    have n: "val_op (Value_init v False None) = None"
      "val_backprop_count (Value_init v False None) = 0"
      by (simp_all add: Value_init_def)
    have "well_formed s1"
      unfolding e by (rule append_val_well_formed [OF wf]) (simp add: n)
    moreover have "unique_producers s1"
      unfolding e by (rule append_val_unique [OF u]) (simp add: n)
    moreover have "counters_clear s1" "unregistered s1"
      unfolding e using append_val_counters [OF n(2)] cc ur by blast+
    moreover have "calls s1 = calls s" using e by simp
    ultimately show ?thesis by blast
  qed
  then have wf1: "well_formed s1" and u1: "unique_producers s1"
    and c1: "counters_clear s1" "unregistered s1" and l1: "calls s1 = calls s"
    by blast+
  let ?s2 = "s1\<lparr>opers := opers s1 @ [p]\<rparr>"
  have u2: "unique_producers ?s2" "counters_clear ?s2" "unregistered ?s2"
    using u1 c1
    by (simp_all add: unique_producers_def counters_clear_def unregistered_def the_val_def)
  from forward_Inr [OF f] obtain w where
    w: "s' = ?s2\<lparr>vals := vals ?s2 @ [w]\<rparr>" "val_backprop_count w = 0"
      "val_op w = None \<or> val_op w = Some (length (opers s1))"
    by blast
  have fresh: "\<forall>x. has_val ?s2 x \<longrightarrow> val_op (the_val ?s2 x) \<noteq> Some (length (opers s1))"
  proof (intro allI impI notI)
    fix x
    assume "has_val ?s2 x" "val_op (the_val ?s2 x) = Some (length (opers s1))"
    then have "has_val s1 x" "val_op (the_val s1 x) = Some (length (opers s1))"
      by (simp_all add: has_val_def the_val_def)
    then have "has_oper s1 (length (opers s1))"
      using wf1 unfolding well_formed_iff by blast
    then show False by (simp add: has_oper_def)
  qed
  have "unique_producers s'"
    unfolding w(1) by (rule append_val_unique [OF u2(1)]) (use w(3) fresh in blast)
  moreover have "counters_clear s'" "unregistered s'"
    unfolding w(1) using append_val_counters [OF w(2)] u2 by blast+
  moreover have "calls s' = calls s" using w(1) l1 by simp
  ultimately show ?thesis by blast
qed


end
